(* ===== verification/Prelude.thy ===== *)
theory Prelude
  imports Main "HOL-Library.Word" "HOL-Library.List_Lexorder"
begin

text \<open>
  The shared vocabulary of the development: the machine types the sources use, the ordered
  containers of the C++ standard library as strictly sorted lists, outcomes of operations that
  may throw or abort together with a small calculus of postconditions for them, and the contract of three-way comparison
  functions. Nothing here models a particular source file except where the comment says so.
\<close>

section \<open>Machine types\<close>

text \<open>
  Unsigned integers are words of their width, so that arithmetic wraps as it does in C++.
  A public key (\<^verbatim>\<open>NodeID\<close>) and a hash are 32 opaque bytes compared lexicographically, which is
  the order of the big-endian 256-bit number they spell. An SCP value is an opaque byte string,
  compared lexicographically.
\<close>

type_synonym uint32 = "32 word"
type_synonym uint64 = "64 word"
type_synonym uint128 = "128 word"
type_synonym node_id = "256 word"
type_synonym hash = "256 word"
type_synonym val = "8 word list"

abbreviation UINT32_MAX :: uint32 where
  "UINT32_MAX \<equiv> 4294967295"

abbreviation UINT64_MAX :: uint64 where
  "UINT64_MAX \<equiv> 18446744073709551615"

lemma unat_of_nat_less: "n < 2 ^ LENGTH('a) \<Longrightarrow> unat (of_nat n :: 'a::len word) = n"
  by (simp add: unat_of_nat)

text \<open>Signed 64-bit quantities are integers; their range is written out where it matters.\<close>

abbreviation INT64_MAX :: int where
  "INT64_MAX \<equiv> 9223372036854775807"

abbreviation INT32_MAX :: int where
  "INT32_MAX \<equiv> 2147483647"

definition int64_nonneg :: "int \<Rightarrow> bool" where
  "int64_nonneg x \<longleftrightarrow> 0 \<le> x \<and> x \<le> INT64_MAX"

lemma int64_nonnegI [intro]: "0 \<le> x \<Longrightarrow> x \<le> INT64_MAX \<Longrightarrow> int64_nonneg x"
  by (simp add: int64_nonneg_def)

lemma int64_nonnegD: "int64_nonneg x \<Longrightarrow> 0 \<le> x" "int64_nonneg x \<Longrightarrow> x \<le> INT64_MAX"
  by (simp_all add: int64_nonneg_def)

section \<open>Ordered containers\<close>

text \<open>
  \<^verbatim>\<open>std::set\<close> is a strictly increasing list: inserting keeps the order and ignores an element
  already present.
\<close>

fun set_insert :: "'a::linorder \<Rightarrow> 'a list \<Rightarrow> 'a list" where
  "set_insert x [] = [x]"
| "set_insert x (y # ys) =
     (if x < y then x # y # ys else if x = y then y # ys else y # set_insert x ys)"

lemma set_set_insert [simp]: "set (set_insert x xs) = insert x (set xs)"
  by (induction xs) auto

lemma set_insert_nonempty [simp]: "set_insert x xs \<noteq> []"
  by (cases xs) auto

lemma sorted_set_insert [intro]:
  "sorted_wrt (<) xs \<Longrightarrow> sorted_wrt (<) (set_insert x xs)"
  by (induction xs) (auto simp: not_less_iff_gr_or_eq)

text \<open>
  \<^verbatim>\<open>std::map\<close> is an association list with strictly increasing keys: a lookup finds the entry of
  a key, an insertion adds or replaces it.
\<close>

fun omap_insert :: "'k::linorder \<Rightarrow> 'v \<Rightarrow> ('k \<times> 'v) list \<Rightarrow> ('k \<times> 'v) list" where
  "omap_insert k v [] = [(k, v)]"
| "omap_insert k v ((k', v') # m) =
     (if k < k' then (k, v) # (k', v') # m
      else if k = k' then (k, v) # m
      else (k', v') # omap_insert k v m)"

abbreviation omap_find :: "('k \<times> 'v) list \<Rightarrow> 'k \<Rightarrow> 'v option" where
  "omap_find \<equiv> map_of"

abbreviation omap_sorted :: "('k::linorder \<times> 'v) list \<Rightarrow> bool" where
  "omap_sorted m \<equiv> sorted_wrt (<) (map fst m)"

text \<open>The contract of an ordered map, as its clients use it.\<close>

locale ordered_map =
  fixes emp :: 'm
    and ins :: "'k \<Rightarrow> 'v \<Rightarrow> 'm \<Rightarrow> 'm"
    and look :: "'m \<Rightarrow> 'k \<Rightarrow> 'v option"
    and entries :: "'m \<Rightarrow> ('k \<times> 'v) list"
    and invar :: "'m \<Rightarrow> bool"
  assumes look_emp: "look emp k = None"
    and look_ins: "invar m \<Longrightarrow> look (ins k v m) k' = (if k' = k then Some v else look m k')"
    and invar_emp: "invar emp"
    and invar_ins: "invar m \<Longrightarrow> invar (ins k v m)"
    and entries_look: "invar m \<Longrightarrow> (k, v) \<in> set (entries m) \<longleftrightarrow> look m k = Some v"
    and entries_distinct: "invar m \<Longrightarrow> distinct (map fst (entries m))"
begin

lemma entries_ins:
  "invar m \<Longrightarrow> (k', v') \<in> set (entries (ins k v m)) \<longleftrightarrow>
     (if k' = k then v' = v else (k', v') \<in> set (entries m))"
  by (auto simp: entries_look invar_ins look_ins)

lemma ins_overrides: "invar m \<Longrightarrow> look (ins k v (ins k w m)) k' = look (ins k v m) k'"
  by (simp add: look_ins invar_ins)

end

lemma omap_insert_keys: "set (map fst (omap_insert k v m)) = insert k (set (map fst m))"
  by (induction m rule: omap_insert.induct) auto

lemma omap_insert_sorted:
  "omap_sorted m \<Longrightarrow> omap_sorted (omap_insert k v m)"
proof (induction k v m rule: omap_insert.induct)
  case (2 k v k' v' m)
  then show ?case
    using omap_insert_keys[of k v m] by (auto simp: not_less_iff_gr_or_eq)
qed simp

lemma omap_find_insert:
  "omap_sorted m \<Longrightarrow> omap_find (omap_insert k v m) k' = (if k' = k then Some v else omap_find m k')"
proof (induction k v m rule: omap_insert.induct)
  case (2 k v k0 v0 m)
  then show ?case by auto
qed simp

lemma omap_sorted_distinct: "omap_sorted m \<Longrightarrow> distinct (map fst m)"
  using strict_sorted_iff by blast

interpretation om: ordered_map "[]" omap_insert omap_find "\<lambda>m. m" omap_sorted
proof unfold_locales
  fix m :: "('k::linorder \<times> 'v) list" and k v
  assume m: "omap_sorted m"
  show "(k, v) \<in> set m \<longleftrightarrow> omap_find m k = Some v"
    using omap_sorted_distinct[OF m] by simp
qed (auto simp: omap_find_insert omap_insert_sorted omap_sorted_distinct)

section \<open>Three-way comparison\<close>

text \<open>
  The contract of a C++ comparison function that returns a negative, zero or positive integer:
  it is antisymmetric in its arguments, zero exactly on equal ones, and transitive. The laws make
  "at most" a linear order.
\<close>

locale comparator =
  fixes cmp :: "'a \<Rightarrow> 'a \<Rightarrow> int"
  assumes cmp_eq: "cmp a b = 0 \<longleftrightarrow> a = b"
    and cmp_sym: "cmp b a = - cmp a b"
    and cmp_trans: "cmp a b < 0 \<Longrightarrow> cmp b c < 0 \<Longrightarrow> cmp a c < 0"
begin

lemma cmp_refl: "cmp a a = 0"
  by (simp add: cmp_eq)

lemma cmp_pos: "0 < cmp a b \<longleftrightarrow> cmp b a < 0"
  using cmp_sym[of a b] by simp

lemma cmp_irrefl: "\<not> cmp a a < 0"
  by (simp add: cmp_refl)

lemma cmp_asym: "cmp a b < 0 \<Longrightarrow> \<not> cmp b a < 0"
  using cmp_sym[of a b] by simp

lemma cmp_total: "cmp a b < 0 \<or> a = b \<or> cmp b a < 0"
  using cmp_sym[of a b] cmp_eq[of a b] by linarith

lemma cmp_le_antisym: "cmp a b \<le> 0 \<Longrightarrow> cmp b a \<le> 0 \<Longrightarrow> a = b"
  using cmp_sym[of a b] cmp_eq[of a b] by linarith

lemma cmp_le_trans: "cmp a b \<le> 0 \<Longrightarrow> cmp b c \<le> 0 \<Longrightarrow> cmp a c \<le> 0"
  using cmp_trans[of a b c] cmp_eq[of a b] cmp_eq[of b c] by force

end

section \<open>Outcomes\<close>

text \<open>
  An operation on a state either throws or aborts with an error (the state is then lost) or
  returns a result and the new state. \<open>bindE\<close> runs the continuation on the result, as the next
  statement of the source runs after the call.
\<close>

definition bindE :: "'e + 'a \<times> 's \<Rightarrow> ('a \<Rightarrow> 's \<Rightarrow> 'e + 'b \<times> 's) \<Rightarrow> 'e + 'b \<times> 's" where
  "bindE m f = (case m of Inl e \<Rightarrow> Inl e | Inr (a, s) \<Rightarrow> f a s)"

lemma bindE_simps [simp]:
  "bindE (Inl e) f = Inl e"
  "bindE (Inr (a, s)) f = f a s"
  by (simp_all add: bindE_def)

lemma bindE_cong [fundef_cong]:
  "m = m' \<Longrightarrow> (\<And>a s. m' = Inr (a, s) \<Longrightarrow> f a s = f' a s) \<Longrightarrow> bindE m f = bindE m' f'"
  by (auto simp: bindE_def split: sum.splits)

text \<open>The same for an operation that has a result and no state.\<close>

definition sbind :: "'e + 'a \<Rightarrow> ('a \<Rightarrow> 'e + 'b) \<Rightarrow> 'e + 'b" where
  "sbind m f = (case m of Inl e \<Rightarrow> Inl e | Inr a \<Rightarrow> f a)"

lemma sbind_simps [simp]:
  "sbind (Inl e) f = Inl e"
  "sbind (Inr a) f = f a"
  by (simp_all add: sbind_def)

text \<open>
  \<open>post m E P\<close>: if the operation fails then with an error that satisfies \<open>E\<close>, and if it returns then
  the result and the new state satisfy \<open>P\<close>.
\<close>

definition post :: "'e + 'a \<times> 's \<Rightarrow> ('e \<Rightarrow> bool) \<Rightarrow> ('a \<Rightarrow> 's \<Rightarrow> bool) \<Rightarrow> bool" where
  "post m E P \<longleftrightarrow> (case m of Inl e \<Rightarrow> E e | Inr (a, s) \<Rightarrow> P a s)"

lemma post_simps [simp]:
  "post (Inl e) E P = E e"
  "post (Inr (a, s)) E P = P a s"
  by (simp_all add: post_def)

lemma post_bindE [intro?]:
  assumes "post m E Q" and "\<And>a s. Q a s \<Longrightarrow> post (f a s) E P"
  shows "post (bindE m f) E P"
proof (cases m)
  case (Inr p)
  with assms show ?thesis by (cases p) simp
qed (use assms in simp)

lemma post_mono:
  assumes "post m E Q" and "\<And>a s. Q a s \<Longrightarrow> P a s"
  shows "post m E P"
proof (cases m)
  case (Inr p)
  with assms show ?thesis by (cases p) simp
qed (use assms in simp)

lemma post_mono_err:
  assumes "post m E P" and "\<And>e. E e \<Longrightarrow> E' e"
  shows "post m E' P"
proof (cases m)
  case (Inr p)
  with assms show ?thesis by (cases p) simp
qed (use assms in simp)

lemma post_conj: "post m E P \<Longrightarrow> post m E Q \<Longrightarrow> post m E (\<lambda>a s. P a s \<and> Q a s)"
  by (auto simp: post_def split: sum.splits prod.splits)

lemma post_Inr: "post m E P \<Longrightarrow> m = Inr (a, s) \<Longrightarrow> P a s"
  by simp

lemma post_Inl: "post m E P \<Longrightarrow> m = Inl e \<Longrightarrow> E e"
  by simp

end
