(* ===== verification/Numeric.thy ===== *)
theory Numeric
  imports Prelude
begin

text \<open>
  The 128-bit helpers of \<^verbatim>\<open>src/util/numeric.cpp\<close> and \<^verbatim>\<open>addBalance\<close> of \<^verbatim>\<open>src/util/types.cpp\<close>.
  Unsigned operands are words, so every intermediate product and sum wraps at its C++ width; the
  lemmas show when it does not. An out-parameter that the source only defines on success is the
  payload of an option.
\<close>

section \<open>Errors of the ledger arithmetic\<close>

datatype tx_error =
    AssertFailed \<comment> \<open>a C \<^verbatim>\<open>assert\<close> aborts the process\<close>
  | OverflowError \<comment> \<open>\<^verbatim>\<open>std::overflow_error\<close>\<close>
  | RuntimeError string \<comment> \<open>\<^verbatim>\<open>std::runtime_error\<close>\<close>
  | WrongUnion \<comment> \<open>\<^verbatim>\<open>xdr::xdr_wrong_union\<close>: access to a case of a union that is not active\<close>
  | SignedOverflow \<comment> \<open>signed overflow, which the language leaves undefined\<close>

section \<open>bigDivide and bigMultiply\<close>

datatype Rounding = ROUND_DOWN | ROUND_UP

definition bigDivide_u64 :: "uint64 \<Rightarrow> uint64 \<Rightarrow> uint64 \<Rightarrow> Rounding \<Rightarrow> uint64 \<times> bool" where
  "bigDivide_u64 A B C rounding =
     (let a = ucast A :: uint128;
          b = ucast B :: uint128;
          c = ucast C :: uint128;
          x = (if rounding = ROUND_DOWN then (a * b) div c else (a * b + c - 1) div c)
      in (ucast x, x \<le> ucast UINT64_MAX))"

definition bigDivide_i64 :: "int \<Rightarrow> int \<Rightarrow> int \<Rightarrow> Rounding \<Rightarrow> tx_error + int option" where
  "bigDivide_i64 A B C rounding =
     (if 0 \<le> A \<and> 0 \<le> B \<and> 0 < C then
        let (r2, res) = bigDivide_u64 (word_of_int A) (word_of_int B) (word_of_int C) rounding
        in Inr (if res \<and> uint r2 \<le> INT64_MAX then Some (uint r2) else None)
      else Inl AssertFailed)"

definition bigDivideOrThrow :: "int \<Rightarrow> int \<Rightarrow> int \<Rightarrow> Rounding \<Rightarrow> tx_error + int" where
  "bigDivideOrThrow A B C rounding =
     (case bigDivide_i64 A B C rounding of
        Inl e \<Rightarrow> Inl e
      | Inr None \<Rightarrow> Inl OverflowError
      | Inr (Some r) \<Rightarrow> Inr r)"

definition bigDivide_u128 :: "uint128 \<Rightarrow> uint64 \<Rightarrow> Rounding \<Rightarrow> tx_error + uint64 option" where
  "bigDivide_u128 a B rounding =
     (if B = 0 then Inl AssertFailed
      else
        let b = ucast B :: uint128
        in if rounding = ROUND_UP \<and> a > (- 1) - (b - 1) then Inr None
           else
             let x = (if rounding = ROUND_DOWN then a div b else (a + b - 1) div b)
             in Inr (if x \<le> ucast UINT64_MAX then Some (ucast x) else None))"

definition bigDivide_u128_i64 :: "uint128 \<Rightarrow> int \<Rightarrow> Rounding \<Rightarrow> tx_error + int option" where
  "bigDivide_u128_i64 a B rounding =
     (if 0 < B then
        (case bigDivide_u128 a (word_of_int B) rounding of
           Inl e \<Rightarrow> Inl e
         | Inr None \<Rightarrow> Inr None
         | Inr (Some r2) \<Rightarrow> Inr (if uint r2 \<le> INT64_MAX then Some (uint r2) else None))
      else Inl AssertFailed)"

definition bigDivide_u128OrThrow :: "uint128 \<Rightarrow> int \<Rightarrow> Rounding \<Rightarrow> tx_error + int" where
  "bigDivide_u128OrThrow a B rounding =
     (case bigDivide_u128_i64 a B rounding of
        Inl e \<Rightarrow> Inl e
      | Inr None \<Rightarrow> Inl OverflowError
      | Inr (Some r) \<Rightarrow> Inr r)"

definition bigMultiply_u64 :: "uint64 \<Rightarrow> uint64 \<Rightarrow> uint128" where
  "bigMultiply_u64 a b = (ucast a :: uint128) * ucast b"

definition bigMultiply_i64 :: "int \<Rightarrow> int \<Rightarrow> tx_error + uint128" where
  "bigMultiply_i64 a b =
     (if 0 \<le> a \<and> 0 \<le> b then Inr (bigMultiply_u64 (word_of_int a) (word_of_int b))
      else Inl AssertFailed)"

section \<open>addBalance\<close>

text \<open>
  The result is the new balance, \<^term>\<open>None\<close> when the source returns false and leaves the balance
  as it was.
\<close>

definition addBalance :: "int \<Rightarrow> int \<Rightarrow> int \<Rightarrow> tx_error + int option" where
  "addBalance balance delta maxBalance =
     (if balance < 0 \<or> maxBalance < 0 then Inl AssertFailed
      else if delta = 0 then Inr (Some balance)
      else if delta < - balance then Inr None
      else if maxBalance - balance < delta then Inr None
      else Inr (Some (balance + delta)))"

section \<open>What they compute\<close>

text \<open>The quotient each rounding mode stands for.\<close>

definition div_round :: "int \<Rightarrow> int \<Rightarrow> Rounding \<Rightarrow> int" where
  "div_round x c rounding = (if rounding = ROUND_DOWN then x div c else (x + c - 1) div c)"

lemma div_round_simps [simp]:
  "div_round x c ROUND_DOWN = x div c"
  "div_round x c ROUND_UP = (x + c - 1) div c"
  by (simp_all add: div_round_def)

lemma div_round_up_ge: "0 < c \<Longrightarrow> x \<le> div_round x c ROUND_UP * c"
proof -
  assume c: "0 < c"
  have "x + c - 1 = (x + c - 1) div c * c + (x + c - 1) mod c"
    by (rule div_mult_mod_eq[symmetric])
  moreover have "(x + c - 1) mod c < c" using c by (rule pos_mod_bound)
  ultimately have "x \<le> (x + c - 1) div c * c" by linarith
  then show ?thesis by simp
qed

lemma div_round_up_less: "0 < c \<Longrightarrow> div_round x c ROUND_UP * c < x + c"
proof -
  assume c: "0 < c"
  have "x + c - 1 = (x + c - 1) div c * c + (x + c - 1) mod c"
    by (rule div_mult_mod_eq[symmetric])
  moreover have "0 \<le> (x + c - 1) mod c" using c by (rule pos_mod_sign)
  ultimately have "(x + c - 1) div c * c < x + c" by linarith
  then show ?thesis by simp
qed

lemma div_round_down_le: "0 < c \<Longrightarrow> div_round x c ROUND_DOWN * c \<le> x"
  by (simp add: minus_mod_eq_div_mult[symmetric])

lemma div_round_down_gt: "0 < c \<Longrightarrow> x < (div_round x c ROUND_DOWN + 1) * c"
proof -
  assume c: "0 < c"
  have "x = x div c * c + x mod c" by simp
  also have "\<dots> < x div c * c + c" using c pos_mod_bound[of c x] by linarith
  finally show ?thesis by (simp add: algebra_simps)
qed

lemma div_round_nonneg: "0 \<le> x \<Longrightarrow> 0 < c \<Longrightarrow> 0 \<le> div_round x c r"
  by (cases r) (auto simp: pos_imp_zdiv_nonneg_iff)

lemma div_round_mono: "x \<le> y \<Longrightarrow> 0 < c \<Longrightarrow> div_round x c r \<le> div_round y c r"
  by (cases r) (auto intro: zdiv_mono1)

lemma div_round_exact: "0 < c \<Longrightarrow> div_round (x * c) c r = x"
proof (cases r)
  case ROUND_UP
  assume c: "0 < c"
  have "(x * c + (c - 1)) div c = x" using c by (simp add: div_pos_pos_trivial)
  with ROUND_UP show ?thesis by (simp add: algebra_simps)
qed simp

lemma div_round_zero: "0 < c \<Longrightarrow> div_round 0 c r = 0"
  using div_round_exact[of c 0 r] by simp

lemma uint_ucast_u128 [simp]: "uint (ucast (a :: uint64) :: uint128) = uint a"
proof -
  have "uint a mod 2 ^ 128 = uint a"
    using uint_bounded[of a] by (intro mod_pos_pos_trivial) auto
  then show ?thesis by (simp add: unsigned_ucast_eq take_bit_eq_mod)
qed

lemma uint_bigMultiply: "uint (bigMultiply_u64 a b) = uint a * uint b"
proof -
  have "uint a * uint b < 2 ^ 64 * 2 ^ 64"
    using uint_bounded[of a] uint_bounded[of b] by (intro mult_strict_mono) auto
  then have "uint a * uint b mod 2 ^ 128 = uint a * uint b" by (intro mod_pos_pos_trivial) auto
  then show ?thesis
    by (simp add: bigMultiply_u64_def uint_word_ariths)
qed

lemma uint_of_int64 [simp]: "int64_nonneg a \<Longrightarrow> uint (word_of_int a :: uint64) = a"
  by (simp add: int64_nonneg_def uint_word_of_int)

lemma uint_u64_max [simp]: "uint (ucast UINT64_MAX :: uint128) = 18446744073709551615"
  by simp

lemma word_le_uint: "a \<le> b \<longleftrightarrow> uint a \<le> uint b"
  by (rule word_le_def)

text \<open>The 64-bit product and rounded sum never exceed 128 bits, so no step of the division wraps.\<close>

lemma bigDivide_u64_exact:
  assumes C: "0 < uint C"
  shows "bigDivide_u64 A B C r =
    (word_of_int (div_round (uint A * uint B) (uint C) r),
     div_round (uint A * uint B) (uint C) r \<le> 18446744073709551615)"
proof -
  let ?a = "ucast A :: uint128" and ?b = "ucast B :: uint128" and ?c = "ucast C :: uint128"
  let ?x = "if r = ROUND_DOWN then (?a * ?b) div ?c else (?a * ?b + ?c - 1) div ?c"
  define P where "P = uint A * uint B"
  have ab: "P \<le> (2 ^ 64 - 1) * (2 ^ 64 - 1)"
    unfolding P_def using uint_bounded[of A] uint_bounded[of B] by (intro mult_mono) auto
  have c: "uint C < 2 ^ 64" using uint_bounded[of C] by simp
  have ab0: "0 \<le> P" by (simp add: P_def)
  have prod: "uint (?a * ?b) = P"
    using uint_bigMultiply[of A B] by (simp add: bigMultiply_u64_def P_def)
  have sum: "uint (?a * ?b + ?c - 1) = P + uint C - 1"
  proof -
    have "(P + uint C) mod 2 ^ 128 = P + uint C"
      using ab c C ab0 by (intro mod_pos_pos_trivial) auto
    then have s: "uint (?a * ?b + ?c) = P + uint C"
      by (simp add: uint_word_ariths(1) prod)
    have "(P + uint C - 1) mod 2 ^ 128 = P + uint C - 1"
      using ab c C ab0 by (intro mod_pos_pos_trivial) auto
    then show ?thesis by (simp add: uint_word_ariths(2) s)
  qed
  have x: "uint ?x = div_round P (uint C) r"
    by (cases r) (simp_all add: uint_div prod sum)
  have "(ucast ?x :: uint64) = word_of_int (uint ?x)"
    by (metis word_of_int_uint ucast_eq)
  with x show ?thesis
    by (simp add: bigDivide_u64_def Let_def word_le_uint P_def)
qed

text \<open>
  \<^verbatim>\<open>bigDivide\<close> on signed operands: the rounded quotient of the exact product when it fits 64 bits,
  and a failure exactly when it does not.
\<close>

lemma bigDivide_i64_exact:
  assumes A: "int64_nonneg A" and B: "int64_nonneg B" and C: "int64_nonneg C" "0 < C"
  shows "bigDivide_i64 A B C r =
    Inr (let q = div_round (A * B) C r in if q \<le> INT64_MAX then Some q else None)"
proof -
  let ?q = "div_round (A * B) C r"
  have q0: "0 \<le> ?q" using A B C by (intro div_round_nonneg) (auto simp: int64_nonneg_def)
  have "?q \<le> 18446744073709551615 \<Longrightarrow> uint (word_of_int ?q :: uint64) = ?q"
    using q0 by (simp add: uint_word_of_int)
  with A B C show ?thesis
    by (auto simp: bigDivide_i64_def bigDivide_u64_exact Let_def int64_nonnegD)
qed

lemma bigDivideOrThrow_exact:
  assumes "int64_nonneg A" and "int64_nonneg B" and "int64_nonneg C" "0 < C"
  shows "bigDivideOrThrow A B C r =
    (let q = div_round (A * B) C r in if q \<le> INT64_MAX then Inr q else Inl OverflowError)"
  using bigDivide_i64_exact[OF assms] by (simp add: bigDivideOrThrow_def Let_def)

text \<open>
  The 128-bit dividend: the early exit for the rounding sum that would wrap is a case where the
  quotient does not fit 64 bits anyway.
\<close>

lemma bigDivide_u128_exact:
  assumes B: "0 < uint B"
  shows "bigDivide_u128 a B r =
    Inr (let q = div_round (uint a) (uint B) r
         in if q \<le> 18446744073709551615 then Some (word_of_int q) else None)"
proof -
  let ?b = "ucast B :: uint128"
  let ?q = "div_round (uint a) (uint B) r"
  have b: "uint B < 2 ^ 64" using uint_bounded[of B] by simp
  have a: "0 \<le> uint a" "uint a < 2 ^ 128" using uint_bounded[of a] by auto
  have ne: "B \<noteq> 0" using B by auto
  have b1: "uint (?b - 1) = uint B - 1"
    using B b by (simp add: uint_word_ariths(2))
  have lim: "uint (- ?b) = 2 ^ 128 - uint B"
  proof -
    have "(2 ^ 128 - uint B) mod 2 ^ 128 = 2 ^ 128 - uint B"
      using B b by (intro mod_pos_pos_trivial) auto
    then have "(- uint B) mod 2 ^ 128 = 2 ^ 128 - uint B"
      by (simp only: minus_mod_self1)
    then show ?thesis by (simp add: uint_word_ariths)
  qed
  show ?thesis
  proof (cases "r = ROUND_UP \<and> a > (- 1) - (?b - 1)")
    case True
    then have big: "2 ^ 128 - uint B < uint a" by (simp add: word_less_def lim)
    have up: "uint a \<le> ?q * uint B" using True B div_round_up_ge[of "uint B" "uint a"] by simp
    have "\<not> ?q \<le> 18446744073709551615"
    proof
      assume "?q \<le> 18446744073709551615"
      then have "?q * uint B \<le> 18446744073709551615 * uint B"
        using B by (intro mult_right_mono) auto
      with up big b show False by simp
    qed
    with True ne show ?thesis by (simp add: bigDivide_u128_def Let_def)
  next
    case False
    let ?x = "if r = ROUND_DOWN then a div ?b else (a + ?b - 1) div ?b"
    have sum: "uint (a + ?b - 1) = uint a + uint B - 1" if "r = ROUND_UP"
    proof -
      have le: "uint a \<le> 2 ^ 128 - uint B"
        using False that by (simp add: word_less_def lim not_less)
      have "uint (a + (?b - 1)) = uint a + (uint B - 1)"
        using le B a by (simp add: uint_word_ariths(1) b1 mod_pos_pos_trivial)
      then show ?thesis by (simp only: add_diff_eq)
    qed
    have x: "uint ?x = ?q"
      by (cases r) (simp_all add: uint_div sum)
    have "(ucast ?x :: uint64) = word_of_int (uint ?x)"
      by (metis word_of_int_uint ucast_eq)
    with x False ne show ?thesis
      by (auto simp: bigDivide_u128_def Let_def word_le_uint)
  qed
qed

lemma bigDivide_u128OrThrow_exact:
  assumes B: "int64_nonneg B" "0 < B"
  shows "bigDivide_u128OrThrow a B r =
    (let q = div_round (uint a) B r in if q \<le> INT64_MAX then Inr q else Inl OverflowError)"
proof -
  let ?q = "div_round (uint a) B r"
  have q0: "0 \<le> ?q" using B by (intro div_round_nonneg) auto
  have u: "?q \<le> 18446744073709551615 \<Longrightarrow> uint (word_of_int ?q :: uint64) = ?q"
    using q0 by (simp add: uint_word_of_int)
  have "bigDivide_u128 a (word_of_int B) r =
    Inr (if ?q \<le> 18446744073709551615 then Some (word_of_int ?q) else None)"
    using B bigDivide_u128_exact[of "word_of_int B" a r] by (simp add: Let_def)
  with B u show ?thesis
    by (auto simp: bigDivide_u128OrThrow_def bigDivide_u128_i64_def Let_def)
qed

text \<open>The two throwing divisions in the form a client computes with: a quotient that fits.\<close>

lemma bigDivideOrThrow_eqI:
  assumes "int64_nonneg a" and "int64_nonneg b" and "int64_nonneg c" "0 < c"
    and "div_round (a * b) c r = y" and "y \<le> INT64_MAX"
  shows "bigDivideOrThrow a b c r = Inr y"
  using assms bigDivideOrThrow_exact[of a b c r] by (simp add: Let_def del: div_round_simps)

lemma bigDivide_u128OrThrow_eqI:
  assumes "int64_nonneg c" "0 < c" and "div_round (uint x) c r = y" and "y \<le> INT64_MAX"
  shows "bigDivide_u128OrThrow x c r = Inr y"
  using assms bigDivide_u128OrThrow_exact[of c x r] by (simp add: Let_def del: div_round_simps)

lemma bigMultiply_i64_exact:
  assumes "int64_nonneg a" and "int64_nonneg b"
  shows "\<exists>w. bigMultiply_i64 a b = Inr w \<and> uint w = a * b"
  using assms by (simp add: bigMultiply_i64_def int64_nonnegD uint_bigMultiply)

text \<open>The balance stays within its bounds and changes by exactly \<open>delta\<close>.\<close>

lemma addBalance_exact:
  assumes "0 \<le> b" and "b \<le> m"
  shows "addBalance b d m =
    Inr (if 0 \<le> b + d \<and> b + d \<le> m then Some (b + d) else None)"
  using assms by (auto simp: addBalance_def)

end
