(* ===== verification/OfferExchange.thy ===== *)
theory OfferExchange
  imports Numeric
begin

text \<open>
  The crossing arithmetic of \<^verbatim>\<open>src/transactions/OfferExchange.cpp\<close>: how much wheat and how many
  sheep change hands when an incoming offer meets one on the book, for the current protocol
  (\<open>exchangeV10\<close>) and for the two older ones. The informal proofs in the comments of that file
  are the lemmas of the second half. Every \<^verbatim>\<open>throw\<close> and \<^verbatim>\<open>assert\<close> of the source is an
  \<^term>\<open>Inl\<close> branch.
\<close>

section \<open>Definitions\<close>

record Price =
  price_n :: int
  price_d :: int

datatype RoundingType = NORMAL | PATH_PAYMENT_STRICT_SEND | PATH_PAYMENT_STRICT_RECEIVE

datatype ExchangeResultType = ER_NORMAL | ER_REDUCED_TO_ZERO | ER_BOGUS

record ExchangeResult =
  er_numWheatReceived :: int
  er_numSheepSend :: int
  er_reduced :: bool

definition ExchangeResult_type :: "ExchangeResult \<Rightarrow> ExchangeResultType" where
  "ExchangeResult_type r =
     (if er_numWheatReceived r \<noteq> 0 \<and> er_numSheepSend r \<noteq> 0 then ER_NORMAL
      else if er_reduced r then ER_REDUCED_TO_ZERO else ER_BOGUS)"

record ExchangeResultV10 =
  numWheatReceived :: int
  numSheepSend :: int
  wheatStays :: bool

definition exchangeV2 :: "int \<Rightarrow> Price \<Rightarrow> int \<Rightarrow> int \<Rightarrow> tx_error + ExchangeResult" where
  "exchangeV2 wheatReceived0 price maxWheatReceive maxSheepSend =
     (let reduced = (wheatReceived0 > maxWheatReceive);
          wheatReceived = min wheatReceived0 maxWheatReceive
      in sbind (bigDivide_i64 wheatReceived (price_n price) (price_d price) ROUND_DOWN) (\<lambda>q.
         let sheep = (case q of None \<Rightarrow> INT64_MAX | Some r \<Rightarrow> r);
             reduced = (reduced \<or> sheep > maxSheepSend);
             sheep = min sheep maxSheepSend
         in sbind (bigDivideOrThrow sheep (price_d price) (price_n price) ROUND_DOWN) (\<lambda>wheat.
            Inr \<lparr>er_numWheatReceived = wheat, er_numSheepSend = sheep, er_reduced = reduced\<rparr>)))"

definition exchangeV3 :: "int \<Rightarrow> Price \<Rightarrow> int \<Rightarrow> int \<Rightarrow> tx_error + ExchangeResult" where
  "exchangeV3 wheatReceived price maxWheatReceive maxSheepSend =
     (let reduced = (wheatReceived > maxWheatReceive);
          wheat = min wheatReceived maxWheatReceive
      in sbind (bigDivide_i64 wheat (price_n price) (price_d price) ROUND_UP) (\<lambda>q.
         let (sheep, reduced) =
               (case q of None \<Rightarrow> (INT64_MAX, True) | Some r \<Rightarrow> (r, reduced));
             reduced = (reduced \<or> sheep > maxSheepSend);
             sheep = min sheep maxSheepSend
         in sbind (bigDivide_i64 sheep (price_d price) (price_n price) ROUND_DOWN) (\<lambda>q'.
            let newWheat = (case q' of None \<Rightarrow> INT64_MAX | Some r \<Rightarrow> r)
            in Inr \<lparr>er_numWheatReceived = min wheat newWheat, er_numSheepSend = sheep,
                    er_reduced = reduced\<rparr>)))"

definition checkPriceErrorBound :: "Price \<Rightarrow> int \<Rightarrow> int \<Rightarrow> bool \<Rightarrow> tx_error + bool" where
  "checkPriceErrorBound price wheatReceive sheepSend canFavorWheat =
     (let errN = 100 * price_n price;
          errD = 100 * price_d price
      in sbind (bigMultiply_i64 errN wheatReceive) (\<lambda>lhs.
         sbind (bigMultiply_i64 errD sheepSend) (\<lambda>rhs.
         if canFavorWheat \<and> rhs > lhs then Inr True
         else
           let absDiff = (if lhs > rhs then lhs - rhs else rhs - lhs)
           in sbind (bigMultiply_i64 (price_n price) wheatReceive) (\<lambda>cap.
              Inr (absDiff \<le> cap)))))"

definition calculateOfferValue :: "int \<Rightarrow> int \<Rightarrow> int \<Rightarrow> int \<Rightarrow> tx_error + uint128" where
  "calculateOfferValue priceN priceD maxSend maxReceive =
     sbind (bigMultiply_i64 maxSend priceN) (\<lambda>sendValue.
     sbind (bigMultiply_i64 maxReceive priceD) (\<lambda>receiveValue.
     Inr (min sendValue receiveValue)))"

definition exchangeV10WithoutPriceErrorThresholds ::
  "Price \<Rightarrow> int \<Rightarrow> int \<Rightarrow> int \<Rightarrow> int \<Rightarrow> RoundingType \<Rightarrow> tx_error + ExchangeResultV10"
where
  "exchangeV10WithoutPriceErrorThresholds price maxWheatSend maxWheatReceive
       maxSheepSend maxSheepReceive round =
     sbind (calculateOfferValue (price_n price) (price_d price) maxWheatSend maxSheepReceive) (\<lambda>wheatValue.
     sbind (calculateOfferValue (price_d price) (price_n price) maxSheepSend maxWheatReceive) (\<lambda>sheepValue.
     let stays = (wheatValue > sheepValue) in
     sbind
       (if stays then
          (if round = PATH_PAYMENT_STRICT_SEND then
             sbind (bigDivide_u128OrThrow sheepValue (price_n price) ROUND_DOWN) (\<lambda>wheatReceive.
             Inr (wheatReceive, min maxSheepSend maxSheepReceive))
           else if price_n price > price_d price \<or> round = PATH_PAYMENT_STRICT_RECEIVE then
             sbind (bigDivide_u128OrThrow sheepValue (price_n price) ROUND_DOWN) (\<lambda>wheatReceive.
             sbind (bigDivideOrThrow wheatReceive (price_n price) (price_d price) ROUND_UP) (\<lambda>sheepSend.
             Inr (wheatReceive, sheepSend)))
           else
             sbind (bigDivide_u128OrThrow sheepValue (price_d price) ROUND_DOWN) (\<lambda>sheepSend.
             sbind (bigDivideOrThrow sheepSend (price_d price) (price_n price) ROUND_DOWN) (\<lambda>wheatReceive.
             Inr (wheatReceive, sheepSend))))
        else
          (if price_n price > price_d price then
             sbind (bigDivide_u128OrThrow wheatValue (price_n price) ROUND_DOWN) (\<lambda>wheatReceive.
             sbind (bigDivideOrThrow wheatReceive (price_n price) (price_d price) ROUND_DOWN) (\<lambda>sheepSend.
             Inr (wheatReceive, sheepSend)))
           else
             sbind (bigDivide_u128OrThrow wheatValue (price_d price) ROUND_DOWN) (\<lambda>sheepSend.
             sbind (bigDivideOrThrow sheepSend (price_d price) (price_n price) ROUND_UP) (\<lambda>wheatReceive.
             Inr (wheatReceive, sheepSend)))))
       (\<lambda>(wheatReceive, sheepSend).
        if wheatReceive < 0 \<or> wheatReceive > min maxWheatReceive maxWheatSend then
          Inl (RuntimeError ''wheatReceive out of bounds'')
        else if sheepSend < 0 \<or> sheepSend > min maxSheepReceive maxSheepSend then
          Inl (RuntimeError ''sheepSend out of bounds'')
        else Inr \<lparr>numWheatReceived = wheatReceive, numSheepSend = sheepSend,
                  wheatStays = stays\<rparr>)))"

definition applyPriceErrorThresholds ::
  "Price \<Rightarrow> int \<Rightarrow> int \<Rightarrow> bool \<Rightarrow> RoundingType \<Rightarrow> tx_error + ExchangeResultV10"
where
  "applyPriceErrorThresholds price wheatReceive sheepSend stays round =
     sbind
       (if wheatReceive > 0 \<and> sheepSend > 0 then
          sbind (bigMultiply_i64 wheatReceive (price_n price)) (\<lambda>wheatReceiveValue.
          sbind (bigMultiply_i64 sheepSend (price_d price)) (\<lambda>sheepSendValue.
          if stays \<and> sheepSendValue < wheatReceiveValue then
            Inl (RuntimeError ''favored sheep when wheat stays'')
          else if \<not> stays \<and> sheepSendValue > wheatReceiveValue then
            Inl (RuntimeError ''favored wheat when sheep stays'')
          else if round = NORMAL then
            sbind (checkPriceErrorBound price wheatReceive sheepSend False) (\<lambda>ok.
            Inr (if ok then (wheatReceive, sheepSend) else (0, 0)))
          else
            sbind (checkPriceErrorBound price wheatReceive sheepSend True) (\<lambda>ok.
            if ok then Inr (wheatReceive, sheepSend)
            else Inl (RuntimeError ''exceeded price error bound''))))
        else if round = PATH_PAYMENT_STRICT_SEND then
          (if sheepSend = 0 then Inl (RuntimeError ''invalid amount of sheep sent'')
           else Inr (wheatReceive, sheepSend))
        else Inr (0, 0))
       (\<lambda>(wheat, sheep). Inr \<lparr>numWheatReceived = wheat, numSheepSend = sheep, wheatStays = stays\<rparr>)"

definition exchangeV10 ::
  "Price \<Rightarrow> int \<Rightarrow> int \<Rightarrow> int \<Rightarrow> int \<Rightarrow> RoundingType \<Rightarrow> tx_error + ExchangeResultV10"
where
  "exchangeV10 price maxWheatSend maxWheatReceive maxSheepSend maxSheepReceive round =
     sbind (exchangeV10WithoutPriceErrorThresholds price maxWheatSend maxWheatReceive
              maxSheepSend maxSheepReceive round) (\<lambda>before.
     applyPriceErrorThresholds price (numWheatReceived before) (numSheepSend before)
       (wheatStays before) round)"

definition adjustOffer :: "Price \<Rightarrow> int \<Rightarrow> int \<Rightarrow> tx_error + int" where
  "adjustOffer price maxWheatSend maxSheepReceive =
     sbind (exchangeV10 price maxWheatSend INT64_MAX INT64_MAX maxSheepReceive NORMAL) (\<lambda>res.
     Inr (numWheatReceived res))"

section \<open>The crossing computed over the integers\<close>

text \<open>
  A price is valid when both of its 32-bit parts are positive, which every offer that passed its
  operation's checks satisfies.
\<close>

definition valid_price :: "Price \<Rightarrow> bool" where
  "valid_price p \<longleftrightarrow>
     0 < price_n p \<and> price_n p \<le> INT32_MAX \<and> 0 < price_d p \<and> price_d p \<le> INT32_MAX"

definition limits_ok :: "int \<Rightarrow> int \<Rightarrow> int \<Rightarrow> int \<Rightarrow> bool" where
  "limits_ok mws mwr mss msr \<longleftrightarrow>
     int64_nonneg mws \<and> int64_nonneg mwr \<and> int64_nonneg mss \<and> int64_nonneg msr"

text \<open>
  The reference: exact rational comparison of the two offers' sizes, exact rounded quotients, no
  machine width and no failure.
\<close>

definition wheat_value :: "Price \<Rightarrow> int \<Rightarrow> int \<Rightarrow> int" where
  "wheat_value p mws msr = min (mws * price_n p) (msr * price_d p)"

definition sheep_value :: "Price \<Rightarrow> int \<Rightarrow> int \<Rightarrow> int" where
  "sheep_value p mwr mss = min (mss * price_d p) (mwr * price_n p)"

definition cross_ref :: "Price \<Rightarrow> int \<Rightarrow> int \<Rightarrow> int \<Rightarrow> int \<Rightarrow> RoundingType \<Rightarrow> int \<times> int" where
  "cross_ref p mws mwr mss msr round =
     (let n = price_n p; d = price_d p; W = wheat_value p mws msr; S = sheep_value p mwr mss
      in if S < W then
           (if round = PATH_PAYMENT_STRICT_SEND then (S div n, min mss msr)
            else if n > d \<or> round = PATH_PAYMENT_STRICT_RECEIVE then
              (S div n, div_round (S div n * n) d ROUND_UP)
            else (S div d * d div n, S div d))
         else if n > d then (W div n, W div n * n div d)
         else (div_round (W div d * d) n ROUND_UP, W div d))"

lemma valid_priceD:
  assumes "valid_price p"
  shows "0 < price_n p" "0 < price_d p" "int64_nonneg (price_n p)" "int64_nonneg (price_d p)"
    "int64_nonneg (100 * price_n p)" "int64_nonneg (100 * price_d p)"
  using assms by (auto simp: valid_price_def int64_nonneg_def)

text \<open>Two facts carry every bound below: a rounded quotient of something at most a multiple, and
  a quotient rounded down times its divisor.\<close>

lemma div_round_le: "0 < c \<Longrightarrow> x \<le> y * c \<Longrightarrow> div_round x c r \<le> y"
  using div_round_mono[of x "y * c" c r] div_round_exact[of c y r] by simp

lemma div_down_mult_le: "0 < c \<Longrightarrow> x \<le> y \<Longrightarrow> x div c * c \<le> (y :: int)"
  using div_round_down_le[of c x] by simp

lemma wheat_value_le: "wheat_value p mws msr \<le> mws * price_n p"
    "wheat_value p mws msr \<le> msr * price_d p"
  by (simp_all add: wheat_value_def)

lemma sheep_value_le: "sheep_value p mwr mss \<le> mss * price_d p"
    "sheep_value p mwr mss \<le> mwr * price_n p"
  by (simp_all add: sheep_value_def)

lemma values_nonneg:
  assumes "valid_price p" and "limits_ok mws mwr mss msr"
  shows "0 \<le> wheat_value p mws msr" "0 \<le> sheep_value p mwr mss"
  using assms by (auto simp: wheat_value_def sheep_value_def limits_ok_def int64_nonneg_def
      valid_price_def)

lemma calculateOfferValue_exact:
  assumes "int64_nonneg n" "int64_nonneg d" "int64_nonneg s" "int64_nonneg r"
  obtains w where "calculateOfferValue n d s r = Inr w" and "uint w = min (s * n) (r * d)"
proof -
  obtain a where a: "bigMultiply_i64 s n = Inr a" "uint a = s * n"
    using bigMultiply_i64_exact assms by blast
  obtain b where b: "bigMultiply_i64 r d = Inr b" "uint b = r * d"
    using bigMultiply_i64_exact assms by blast
  show ?thesis
  proof (rule that)
    show "calculateOfferValue n d s r = Inr (min a b)"
      by (simp add: calculateOfferValue_def a b)
    show "uint (min a b) = min (s * n) (r * d)"
      using a b by (simp add: min_def word_le_def)
  qed
qed

text \<open>The amounts of the reference respect all four limits.\<close>

lemma cross_ref_bounds:
  assumes p: "valid_price p" and l: "limits_ok mws mwr mss msr"
    and ref: "cross_ref p mws mwr mss msr round = (w, s)"
  shows "0 \<le> w \<and> w \<le> mwr \<and> w \<le> mws \<and> 0 \<le> s \<and> s \<le> msr \<and> s \<le> mss"
proof -
  let ?n = "price_n p" and ?d = "price_d p"
  let ?W = "wheat_value p mws msr" and ?S = "sheep_value p mwr mss"
  note n = valid_priceD[OF p] and v = values_nonneg[OF p l]
  note W = wheat_value_le[of p mws msr] and S = sheep_value_le[of p mwr mss]
  have l0: "0 \<le> mss" "0 \<le> msr" using l by (auto simp: limits_ok_def int64_nonneg_def)
  have dn: "x div c \<le> y" if "0 < c" "x \<le> y * c" for x y c :: int
    using div_round_le[of c x y ROUND_DOWN] that by simp
  have floor: "x div ?n * ?n \<le> x" "x div ?d * ?d \<le> x" for x
    using n div_round_down_le[of _ x] by simp_all
  have pos: "0 \<le> x div ?n" "0 \<le> x div ?d" if "0 \<le> x" for x
    using that n by (simp_all add: pos_imp_zdiv_nonneg_iff)
  show ?thesis
  proof (cases "?S < ?W")
    case True
    have wS: "?S div ?n \<le> mwr" "?S div ?n \<le> mws" "?S div ?d \<le> mss" "?S div ?d \<le> msr"
      using n S W True by (auto intro!: dn)
    have up: "div_round (?S div ?n * ?n) ?d ROUND_UP \<le> mss"
      "div_round (?S div ?n * ?n) ?d ROUND_UP \<le> msr"
      using n S W True floor(1)[of ?S] by (auto intro!: div_round_le simp del: div_round_simps)
    have dw: "?S div ?d * ?d div ?n \<le> mwr" "?S div ?d * ?d div ?n \<le> mws"
      using n S W True floor(2)[of ?S] by (auto intro!: dn)
    have p0: "0 \<le> ?S div ?n * ?n" "0 \<le> ?S div ?d * ?d"
      using pos[OF v(2)] n by simp_all
    from ref True show ?thesis
      using wS up dw l0 pos[OF v(2)] p0 n div_round_nonneg[OF p0(1) n(2), of ROUND_UP] pos(1)[OF p0(2)]
      by (auto simp: cross_ref_def Let_def simp del: div_round_simps split: if_splits)
  next
    case False
    have wW: "?W div ?n \<le> mwr" "?W div ?n \<le> mws" "?W div ?d \<le> mss" "?W div ?d \<le> msr"
      using n S W False by (auto intro!: dn)
    have up: "div_round (?W div ?d * ?d) ?n ROUND_UP \<le> mwr"
      "div_round (?W div ?d * ?d) ?n ROUND_UP \<le> mws"
      using n S W False floor(2)[of ?W] by (auto intro!: div_round_le simp del: div_round_simps)
    have dw: "?W div ?n * ?n div ?d \<le> mss" "?W div ?n * ?n div ?d \<le> msr"
      using n S W False floor(1)[of ?W] by (auto intro!: dn)
    have p0: "0 \<le> ?W div ?n * ?n" "0 \<le> ?W div ?d * ?d"
      using pos[OF v(1)] n by simp_all
    from ref False show ?thesis
      using wW up dw pos[OF v(1)] p0 n div_round_nonneg[OF p0(2) n(1), of ROUND_UP] pos(2)[OF p0(1)]
      by (auto simp: cross_ref_def Let_def simp del: div_round_simps split: if_splits)
  qed
qed

text \<open>The seller whose offer stays in the book is the one the rounding favours.\<close>

lemma cross_ref_favours:
  assumes p: "valid_price p" and l: "limits_ok mws mwr mss msr"
    and ref: "cross_ref p mws mwr mss msr round = (w, s)"
  shows "if sheep_value p mwr mss < wheat_value p mws msr
    then w * price_n p \<le> s * price_d p else s * price_d p \<le> w * price_n p"
proof -
  let ?n = "price_n p" and ?d = "price_d p"
  let ?W = "wheat_value p mws msr" and ?S = "sheep_value p mwr mss"
  note n = valid_priceD[OF p]
  note W = wheat_value_le[of p mws msr] and S = sheep_value_le[of p mwr mss]
  have dn: "x div ?n * ?n \<le> x" "x div ?d * ?d \<le> x" for x
    using n div_round_down_le[of _ x] by simp_all
  have up: "x \<le> div_round x ?n ROUND_UP * ?n" "x \<le> div_round x ?d ROUND_UP * ?d" for x
    using n div_round_up_ge[of _ x] by blast+
  have "?S < ?W \<Longrightarrow> ?S div ?n * ?n \<le> min mss msr * ?d"
    using S W dn(1)[of ?S] by (auto simp: min_def)
  with ref show ?thesis
    using dn up by (auto simp: cross_ref_def Let_def simp del: div_round_simps split: if_splits)
qed

text \<open>
  The width-bounded code computes the reference: no multiplication wraps, no division overflows
  and neither of the two bounds checks throws.
\<close>

lemma exchange_before_thresholds_exact:
  assumes p: "valid_price p" and l: "limits_ok mws mwr mss msr"
    and ref: "cross_ref p mws mwr mss msr round = (w, s)"
  shows "exchangeV10WithoutPriceErrorThresholds p mws mwr mss msr round =
    Inr \<lparr>numWheatReceived = w, numSheepSend = s,
         wheatStays = (sheep_value p mwr mss < wheat_value p mws msr)\<rparr>"
proof -
  let ?n = "price_n p" and ?d = "price_d p"
  let ?W = "wheat_value p mws msr" and ?S = "sheep_value p mwr mss"
  note n = valid_priceD[OF p] and b = cross_ref_bounds[OF p l ref]
  have lim: "int64_nonneg mws" "int64_nonneg mwr" "int64_nonneg mss" "int64_nonneg msr"
    using l by (auto simp: limits_ok_def)
  have wi: "int64_nonneg w" "int64_nonneg s" and wm: "w \<le> INT64_MAX" "s \<le> INT64_MAX"
    using b lim by (auto simp: int64_nonneg_def)
  obtain Ww where Ww: "calculateOfferValue ?n ?d mws msr = Inr Ww" "uint Ww = ?W"
    using calculateOfferValue_exact[OF n(3,4) lim(1,4)] by (auto simp: wheat_value_def)
  obtain Sw where Sw: "calculateOfferValue ?d ?n mss mwr = Inr Sw" "uint Sw = ?S"
    using calculateOfferValue_exact[OF n(4,3) lim(3,2)] by (auto simp: sheep_value_def)
  have stays: "Sw < Ww \<longleftrightarrow> ?S < ?W" by (simp add: word_less_def Ww Sw)
  note divs = bigDivide_u128OrThrow_eqI[OF n(3,1) _ wm(1)] bigDivide_u128OrThrow_eqI[OF n(4,2) _ wm(2)]
    bigDivideOrThrow_eqI[OF wi(1) n(3,4,2) _ wm(2)] bigDivideOrThrow_eqI[OF wi(2) n(4,3,1) _ wm(1)]
  note defs = exchangeV10WithoutPriceErrorThresholds_def Ww(1) Sw(1) stays Let_def
  note ref' = ref[unfolded cross_ref_def Let_def]
  consider (send) "?S < ?W" "round = PATH_PAYMENT_STRICT_SEND"
    | (wheat) "?S < ?W" "round \<noteq> PATH_PAYMENT_STRICT_SEND"
        "?n > ?d \<or> round = PATH_PAYMENT_STRICT_RECEIVE"
    | (sheep) "?S < ?W" "round \<noteq> PATH_PAYMENT_STRICT_SEND"
        "\<not> (?n > ?d \<or> round = PATH_PAYMENT_STRICT_RECEIVE)"
    | (nwheat) "\<not> ?S < ?W" "?n > ?d"
    | (nsheep) "\<not> ?S < ?W" "\<not> ?n > ?d"
    by blast
  then show ?thesis
  proof cases
    case send
    with ref' have "div_round (uint Sw) ?n ROUND_DOWN = w" "min mss msr = s" by (auto simp: Sw)
    with send b show ?thesis by (auto simp: defs divs simp del: div_round_simps)
  next
    case wheat
    with ref' have "div_round (uint Sw) ?n ROUND_DOWN = w" "div_round (w * ?n) ?d ROUND_UP = s"
      by (auto simp: Sw)
    with wheat b show ?thesis by (auto simp: defs divs simp del: div_round_simps)
  next
    case sheep
    with ref' have "div_round (uint Sw) ?d ROUND_DOWN = s" "div_round (s * ?d) ?n ROUND_DOWN = w"
      by (auto simp: Sw)
    with sheep b show ?thesis by (auto simp: defs divs simp del: div_round_simps)
  next
    case nwheat
    with ref' have "div_round (uint Ww) ?n ROUND_DOWN = w" "div_round (w * ?n) ?d ROUND_DOWN = s"
      by (auto simp: Ww)
    with nwheat b show ?thesis by (auto simp: defs divs simp del: div_round_simps)
  next
    case nsheep
    with ref' have "div_round (uint Ww) ?d ROUND_DOWN = s" "div_round (s * ?d) ?n ROUND_UP = w"
      by (auto simp: Ww)
    with nsheep b show ?thesis by (auto simp: defs divs simp del: div_round_simps)
  qed
qed

text \<open>The price-error check decides the one percent rule of the comment in front of it.\<close>

definition price_error_ok :: "Price \<Rightarrow> int \<Rightarrow> int \<Rightarrow> bool" where
  "price_error_ok p w s \<longleftrightarrow> 100 * \<bar>price_n p * w - price_d p * s\<bar> \<le> price_n p * w"

lemma checkPriceErrorBound_exact:
  assumes p: "valid_price p" and w: "int64_nonneg w" and s: "int64_nonneg s"
  shows "checkPriceErrorBound p w s favor =
    Inr ((favor \<and> price_n p * w < price_d p * s) \<or> price_error_ok p w s)"
proof -
  let ?n = "price_n p" and ?d = "price_d p"
  note n = valid_priceD[OF p]
  obtain l where l: "bigMultiply_i64 (100 * ?n) w = Inr l" "uint l = 100 * ?n * w"
    using bigMultiply_i64_exact[OF n(5) w] by blast
  obtain r where r: "bigMultiply_i64 (100 * ?d) s = Inr r" "uint r = 100 * ?d * s"
    using bigMultiply_i64_exact[OF n(6) s] by blast
  obtain c where c: "bigMultiply_i64 ?n w = Inr c" "uint c = ?n * w"
    using bigMultiply_i64_exact[OF n(3) w] by blast
  have diff: "uint (if r < l then l - r else r - l) = \<bar>uint l - uint r\<bar>"
    by (auto simp: word_less_def uint_sub_if')
  have eq: "\<bar>uint l - uint r\<bar> = 100 * \<bar>?n * w - ?d * s\<bar>"
    using l r by (simp add: abs_if algebra_simps)
  have le: "(if r < l then l - r else r - l) \<le> c \<longleftrightarrow> price_error_ok p w s"
    unfolding word_le_def diff eq c(2) price_error_ok_def ..
  have lt: "l < r \<longleftrightarrow> ?n * w < ?d * s"
    by (simp add: word_less_def l r)
  show ?thesis
    by (auto simp: checkPriceErrorBound_def Let_def l(1) r(1) c(1) lt le)
qed

text \<open>
  Below the thresholds the two amounts vanish together, except that a strict send may give sheep
  for no wheat.
\<close>

lemma div_up_zero_iff: "0 < c \<Longrightarrow> 0 \<le> x \<Longrightarrow> div_round x c ROUND_UP = 0 \<longleftrightarrow> x = (0 :: int)"
proof
  assume c: "0 < c" and x: "0 \<le> x" and z: "div_round x c ROUND_UP = 0"
  show "x = 0" using div_round_up_ge[OF c, of x] z x by simp
qed simp

lemma div_down_zero_iff_less: "0 < c \<Longrightarrow> 0 \<le> x \<Longrightarrow> x div c = 0 \<longleftrightarrow> x < (c :: int)"
  by (auto simp: zdiv_eq_0_iff)

lemma cross_ref_zero_iff:
  assumes p: "valid_price p" and l: "limits_ok mws mwr mss msr"
    and ref: "cross_ref p mws mwr mss msr round = (w, s)"
    and round: "round \<noteq> PATH_PAYMENT_STRICT_SEND"
  shows "w = 0 \<longleftrightarrow> s = 0"
proof -
  let ?n = "price_n p" and ?d = "price_d p"
  note n = valid_priceD(1,2)[OF p] and v = values_nonneg[OF p l]
  have up: "div_round (x * c) c' ROUND_UP = 0 \<longleftrightarrow> x = 0" if "0 \<le> x" "0 < c" "0 < c'" for x c c'
    using that div_up_zero_iff[of c' "x * c"] by (simp del: div_round_simps)
  have dn: "x * c div c' = 0 \<longleftrightarrow> x = 0" if "0 \<le> x" "0 < c'" "c' \<le> c" for x c c' :: int
  proof
    assume "x * c div c' = 0"
    then have "x * c < c'" using that by (simp add: div_down_zero_iff_less)
    moreover have "x * c' \<le> x * c" using that by (simp add: mult_left_mono)
    ultimately have "x * c' < 1 * c'" by simp
    then show "x = 0" using that by (simp only: mult_less_cancel_right) simp
  qed simp
  have pos: "0 \<le> x div ?n" "0 \<le> x div ?d" if "0 \<le> x" for x
    using that n by (simp_all add: pos_imp_zdiv_nonneg_iff)
  show ?thesis
    using ref round n v pos[OF v(1)] pos[OF v(2)]
    by (auto simp: cross_ref_def Let_def up dn div_round_zero simp del: div_round_simps split: if_splits)
qed

section \<open>The thresholds\<close>

definition favours :: "Price \<Rightarrow> int \<Rightarrow> int \<Rightarrow> bool \<Rightarrow> bool" where
  "favours p w s stays \<longleftrightarrow>
     (if stays then w * price_n p \<le> s * price_d p else s * price_d p \<le> w * price_n p)"

lemma favoured_or_exact:
  assumes "0 \<le> w * price_n p" and "w * price_n p \<le> s * price_d p"
  shows "w * price_n p < s * price_d p \<or> price_error_ok p w s"
proof (cases "w * price_n p = s * price_d p")
  case True
  then have "price_n p * w = price_d p * s" by (simp add: mult.commute)
  with assms show ?thesis by (simp add: price_error_ok_def mult.commute)
qed (use assms in simp)

text \<open>
  The thresholds over the integers: amounts whose effective price is too far from the offer's price are
  dropped by a normal crossing and refused by a path payment, unless they favour the seller.
\<close>

definition threshold_ref ::
  "Price \<Rightarrow> int \<Rightarrow> int \<Rightarrow> bool \<Rightarrow> RoundingType \<Rightarrow> tx_error + ExchangeResultV10"
where
  "threshold_ref p w s stays round =
    (if w > 0 \<and> s > 0 then
       (if price_error_ok p w s \<or> round \<noteq> NORMAL \<and> w * price_n p < s * price_d p
        then Inr \<lparr>numWheatReceived = w, numSheepSend = s, wheatStays = stays\<rparr>
        else if round = NORMAL
        then Inr \<lparr>numWheatReceived = 0, numSheepSend = 0, wheatStays = stays\<rparr>
        else Inl (RuntimeError ''exceeded price error bound''))
     else if round = PATH_PAYMENT_STRICT_SEND then
       (if s = 0 then Inl (RuntimeError ''invalid amount of sheep sent'')
        else Inr \<lparr>numWheatReceived = w, numSheepSend = s, wheatStays = stays\<rparr>)
     else Inr \<lparr>numWheatReceived = 0, numSheepSend = 0, wheatStays = stays\<rparr>)"

lemma applyPriceErrorThresholds_ref:
  assumes p: "valid_price p" and w: "int64_nonneg w" and s: "int64_nonneg s"
    and f: "favours p w s stays"
  shows "applyPriceErrorThresholds p w s stays round = threshold_ref p w s stays round"
proof -
  note n = valid_priceD[OF p]
  obtain a where a: "bigMultiply_i64 w (price_n p) = Inr a" "uint a = w * price_n p"
    using bigMultiply_i64_exact[OF w n(3)] by blast
  obtain b where b: "bigMultiply_i64 s (price_d p) = Inr b" "uint b = s * price_d p"
    using bigMultiply_i64_exact[OF s n(4)] by blast
  have nothrow: "\<not> (stays \<and> b < a)" "\<not> (\<not> stays \<and> a < b)"
    using f by (auto simp: favours_def word_less_def a b split: if_splits)
  show ?thesis
    using nothrow checkPriceErrorBound_exact[OF p w s]
    by (auto simp: applyPriceErrorThresholds_def threshold_ref_def a(1) b(1) mult.commute)
qed

lemmas applyPriceErrorThresholds_exact = applyPriceErrorThresholds_ref[unfolded threshold_ref_def]

text \<open>One step from the reference to the result of \<^verbatim>\<open>exchangeV10\<close>.\<close>

lemma exchangeV10_exact:
  assumes p: "valid_price p" and l: "limits_ok mws mwr mss msr"
    and ref: "cross_ref p mws mwr mss msr round = (w, s)"
  shows "exchangeV10 p mws mwr mss msr round =
    applyPriceErrorThresholds p w s (sheep_value p mwr mss < wheat_value p mws msr) round"
  by (simp add: exchangeV10_def exchange_before_thresholds_exact[OF assms])

lemma cross_ref_facts:
  assumes p: "valid_price p" and l: "limits_ok mws mwr mss msr"
    and ref: "cross_ref p mws mwr mss msr round = (w, s)"
  shows "int64_nonneg w" "int64_nonneg s"
    "favours p w s (sheep_value p mwr mss < wheat_value p mws msr)"
proof -
  show "int64_nonneg w" "int64_nonneg s"
    using cross_ref_bounds[OF assms] l by (auto simp: limits_ok_def int64_nonneg_def)
  show "favours p w s (sheep_value p mwr mss < wheat_value p mws msr)"
    using cross_ref_favours[OF assms] by (simp add: favours_def)
qed

lemma exchangeV10_cases:
  assumes p: "valid_price p" and l: "limits_ok mws mwr mss msr"
  obtains w s where "cross_ref p mws mwr mss msr round = (w, s)"
    and "int64_nonneg w" and "int64_nonneg s"
    and "favours p w s (sheep_value p mwr mss < wheat_value p mws msr)"
    and "exchangeV10 p mws mwr mss msr round =
      applyPriceErrorThresholds p w s (sheep_value p mwr mss < wheat_value p mws msr) round"
proof -
  obtain w s where "cross_ref p mws mwr mss msr round = (w, s)" by fastforce
  with that cross_ref_facts[OF p l] exchangeV10_exact[OF p l] show ?thesis by blast
qed

section \<open>Adjusting an offer\<close>

text \<open>
  Adjusting runs a crossing against a taker without limits, in which the sheep offer always stays;
  the amounts then depend on the wheat side only.
\<close>

definition take_all :: "Price \<Rightarrow> int \<Rightarrow> int \<Rightarrow> int \<times> int" where
  "take_all p mws msr =
     (let n = price_n p; d = price_d p; W = wheat_value p mws msr
      in if n > d then (W div n, W div n * n div d)
         else (div_round (W div d * d) n ROUND_UP, W div d))"

lemma cross_ref_take_all:
  "\<not> sheep_value p mwr mss < wheat_value p mws msr \<Longrightarrow>
     cross_ref p mws mwr mss msr round = take_all p mws msr"
  by (simp add: cross_ref_def take_all_def Let_def)

lemma unlimited_taker_stays:
  assumes p: "valid_price p" and "int64_nonneg mws" "int64_nonneg msr"
  shows "\<not> sheep_value p INT64_MAX INT64_MAX < wheat_value p mws msr"
proof -
  have "mws * price_n p \<le> INT64_MAX * price_n p" "msr * price_d p \<le> INT64_MAX * price_d p"
    using assms by (auto simp: int64_nonneg_def valid_price_def intro!: mult_right_mono)
  then show ?thesis by (auto simp: sheep_value_def wheat_value_def)
qed

definition adjusted :: "Price \<Rightarrow> int \<Rightarrow> int \<Rightarrow> int" where
  "adjusted p mws msr =
     (let (w, s) = take_all p mws msr in if w > 0 \<and> s > 0 \<and> price_error_ok p w s then w else 0)"

lemma adjustOffer_exact:
  assumes p: "valid_price p" and m: "int64_nonneg mws" "int64_nonneg msr"
  shows "adjustOffer p mws msr = Inr (adjusted p mws msr)"
proof -
  have l: "limits_ok mws INT64_MAX INT64_MAX msr"
    using m by (simp add: limits_ok_def int64_nonneg_def)
  obtain w s where r: "cross_ref p mws INT64_MAX INT64_MAX msr NORMAL = (w, s)"
    and w: "int64_nonneg w" "int64_nonneg s"
    and f: "favours p w s (sheep_value p INT64_MAX INT64_MAX < wheat_value p mws msr)"
    and e: "exchangeV10 p mws INT64_MAX INT64_MAX msr NORMAL =
      applyPriceErrorThresholds p w s (sheep_value p INT64_MAX INT64_MAX < wheat_value p mws msr) NORMAL"
    by (rule exchangeV10_cases[OF p l, of NORMAL])
  from r have "take_all p mws msr = (w, s)"
    using cross_ref_take_all[OF unlimited_taker_stays[OF p m]] by metis
  then show ?thesis
    using applyPriceErrorThresholds_exact[OF p w f, of NORMAL]
    by (simp add: adjustOffer_def e adjusted_def)
qed

text \<open>Crossing again with the amount just taken takes the same amounts.\<close>

lemma take_all_stable:
  assumes p: "valid_price p" and m: "int64_nonneg mws" "int64_nonneg msr"
    and t: "take_all p mws msr = (w, s)"
  shows "take_all p w msr = (w, s)"
proof (cases "price_n p > price_d p")
  case True
  let ?n = "price_n p" and ?W = "wheat_value p mws msr"
  note n = valid_priceD[OF p]
  have w: "w = ?W div ?n" and s: "s = w * ?n div price_d p"
    using t True by (auto simp: take_all_def Let_def)
  have "w * ?n \<le> ?W" using div_round_down_le[OF n(1), of ?W] w by simp
  then have "wheat_value p w msr = w * ?n"
    using wheat_value_le(2)[of p mws msr] by (simp add: wheat_value_def)
  with True n s show ?thesis by (simp add: take_all_def Let_def)
next
  case False
  let ?n = "price_n p" and ?d = "price_d p"
  let ?W = "wheat_value p mws msr" and ?W' = "wheat_value p w msr"
  note n = valid_priceD[OF p]
  have s: "s = ?W div ?d" and w: "w = div_round (s * ?d) ?n ROUND_UP"
    using t False by (auto simp: take_all_def Let_def)
  have sd: "s * ?d \<le> ?W" using div_round_down_le[OF n(2), of ?W] s by simp
  have "w \<le> mws" using sd wheat_value_le(1)[of p mws msr] n
    unfolding w by (intro div_round_le) auto
  then have "w * ?n \<le> mws * ?n" using n by simp
  then have "?W' \<le> ?W" by (simp add: wheat_value_def min_le_iff_disj)
  then have le: "?W' div ?d \<le> s" using n s by (simp add: zdiv_mono1)
  have "s * ?d \<le> w * ?n" using div_round_up_ge[OF n(1), of "s * ?d"] w by simp
  then have "s * ?d \<le> ?W'" using sd wheat_value_le(2)[of p mws msr] by (simp add: wheat_value_def)
  then have "s \<le> ?W' div ?d" using n zdiv_mono1[of "s * ?d" ?W' ?d] by simp
  with le have "?W' div ?d = s" by simp
  with False w show ?thesis by (simp add: take_all_def Let_def)
qed

lemma adjusted_bounds:
  assumes p: "valid_price p" and m: "int64_nonneg mws" "int64_nonneg msr"
  shows "0 \<le> adjusted p mws msr" "adjusted p mws msr \<le> mws"
proof -
  have l: "limits_ok mws INT64_MAX INT64_MAX msr"
    using m by (simp add: limits_ok_def int64_nonneg_def)
  obtain w s where t: "take_all p mws msr = (w, s)" by fastforce
  with cross_ref_bounds[OF p l, of NORMAL w s] cross_ref_take_all[OF unlimited_taker_stays[OF p m], of NORMAL] m
  show "0 \<le> adjusted p mws msr" "adjusted p mws msr \<le> mws"
    by (auto simp: adjusted_def int64_nonneg_def)
qed

lemma adjusted_stable:
  assumes p: "valid_price p" and m: "int64_nonneg mws" "int64_nonneg msr"
  shows "adjusted p (adjusted p mws msr) msr = adjusted p mws msr"
proof -
  obtain w s where t: "take_all p mws msr = (w, s)" by fastforce
  have z: "take_all p 0 msr = (0, 0)"
    using valid_priceD[OF p] m
    by (auto simp: take_all_def Let_def wheat_value_def int64_nonneg_def div_round_zero
        simp del: div_round_simps)
  show ?thesis
    using t z take_all_stable[OF p m t] by (simp add: adjusted_def)
qed

section \<open>Properties of the crossing\<close>

text \<open>
  Property C9. The crossing of protocol 10 equals its unbounded-integer reference. For every valid price and
  all limits in range, the amounts before the thresholds are exactly the reference amounts: no 128-bit
  product wraps, no quotient overflows 64 bits, and neither "out of bounds" check fires. The result of
  \<^verbatim>\<open>exchangeV10\<close> itself is these amounts after the thresholds of the reference; the two "favored" checks
  never fire, and the only ways to fail are the two that the reference has.
\<close>

theorem exchangeV10_matches_reference:
  assumes "valid_price p" and "limits_ok mws mwr mss msr"
  shows "let (w, s) = cross_ref p mws mwr mss msr round;
        stays = (sheep_value p mwr mss < wheat_value p mws msr)
    in exchangeV10WithoutPriceErrorThresholds p mws mwr mss msr round =
         Inr \<lparr>numWheatReceived = w, numSheepSend = s, wheatStays = stays\<rparr> \<and>
       exchangeV10 p mws mwr mss msr round = threshold_ref p w s stays round"
proof -
  obtain w s where r: "cross_ref p mws mwr mss msr round = (w, s)" by fastforce
  show ?thesis
    using exchange_before_thresholds_exact[OF assms r] exchangeV10_exact[OF assms r]
      applyPriceErrorThresholds_ref[OF assms(1) cross_ref_facts[OF assms r]]
    by (simp add: r)
qed

theorem exchangeV10_matches_reference_witness:
  "exchangeV10WithoutPriceErrorThresholds \<lparr>price_n = 2, price_d = 3\<rparr> 150 101
     INT64_MAX INT64_MAX PATH_PAYMENT_STRICT_RECEIVE =
   Inr \<lparr>numWheatReceived = 101, numSheepSend = 68, wheatStays = True\<rparr> \<and>
   exchangeV10 \<lparr>price_n = 2, price_d = 3\<rparr> 150 101 INT64_MAX INT64_MAX PATH_PAYMENT_STRICT_RECEIVE =
   Inr \<lparr>numWheatReceived = 101, numSheepSend = 68, wheatStays = True\<rparr>"
proof -
  let ?p = "\<lparr>price_n = 2, price_d = 3\<rparr>"
  have "valid_price ?p" "limits_ok 150 101 INT64_MAX INT64_MAX"
    by (simp_all add: valid_price_def limits_ok_def int64_nonneg_def)
  note ref = exchangeV10_matches_reference[OF this, of PATH_PAYMENT_STRICT_RECEIVE]
  have "cross_ref ?p 150 101 INT64_MAX INT64_MAX PATH_PAYMENT_STRICT_RECEIVE = (101, 68)"
    "sheep_value ?p 101 INT64_MAX < wheat_value ?p 150 INT64_MAX"
    by (simp_all add: cross_ref_def wheat_value_def sheep_value_def)
  with ref show ?thesis by (simp add: threshold_ref_def price_error_ok_def)
qed

text \<open>
  Property C10. A normal crossing never throws, both amounts respect both parties' limits, the rounding
  favours the seller whose offer stays in the book, the two amounts are zero together, and the effective
  price is within one percent of the offer's price.
\<close>

theorem exchangeV10_normal_sound:
  assumes p: "valid_price p" and l: "limits_ok mws mwr mss msr"
  shows "\<exists>res. exchangeV10 p mws mwr mss msr NORMAL = Inr res \<and>
    0 \<le> numWheatReceived res \<and> numWheatReceived res \<le> min mwr mws \<and>
    0 \<le> numSheepSend res \<and> numSheepSend res \<le> min msr mss \<and>
    favours p (numWheatReceived res) (numSheepSend res) (wheatStays res) \<and>
    (numWheatReceived res = 0 \<longleftrightarrow> numSheepSend res = 0) \<and>
    price_error_ok p (numWheatReceived res) (numSheepSend res)"
proof -
  obtain w s where r: "cross_ref p mws mwr mss msr NORMAL = (w, s)"
    and w: "int64_nonneg w" "int64_nonneg s"
    and f: "favours p w s (sheep_value p mwr mss < wheat_value p mws msr)"
    and e: "exchangeV10 p mws mwr mss msr NORMAL =
      applyPriceErrorThresholds p w s (sheep_value p mwr mss < wheat_value p mws msr) NORMAL"
    by (rule exchangeV10_cases[OF p l, of NORMAL])
  have lim: "0 \<le> mws" "0 \<le> mwr" "0 \<le> mss" "0 \<le> msr"
    using l by (auto simp: limits_ok_def int64_nonneg_def)
  have ok0: "favours p 0 0 b" "price_error_ok p 0 0" for b
    by (simp_all add: favours_def price_error_ok_def)
  show ?thesis
    using cross_ref_bounds[OF p l r] lim f ok0
    by (auto simp: e applyPriceErrorThresholds_exact[OF p w f])
qed

theorem exchangeV10_normal_sound_witness:
  "\<exists>res. exchangeV10 \<lparr>price_n = 3, price_d = 2\<rparr> 28 100 1000 1000 NORMAL = Inr res \<and>
    0 \<le> numWheatReceived res \<and> numWheatReceived res \<le> min 100 28 \<and>
    0 \<le> numSheepSend res \<and> numSheepSend res \<le> min 1000 1000 \<and>
    favours \<lparr>price_n = 3, price_d = 2\<rparr> (numWheatReceived res) (numSheepSend res) (wheatStays res) \<and>
    (numWheatReceived res = 0 \<longleftrightarrow> numSheepSend res = 0) \<and>
    price_error_ok \<lparr>price_n = 3, price_d = 2\<rparr> (numWheatReceived res) (numSheepSend res)"
  by (rule exchangeV10_normal_sound) (simp_all add: valid_price_def limits_ok_def int64_nonneg_def)

text \<open>
  Property C15. \<^verbatim>\<open>adjustOffer\<close> always returns, with an amount between zero and what it was given, and
  adjusting an adjusted offer changes nothing.
\<close>

theorem adjustOffer_idempotent:
  assumes p: "valid_price p" and m: "int64_nonneg mws" "int64_nonneg msr"
  shows "\<exists>a. adjustOffer p mws msr = Inr a \<and> 0 \<le> a \<and> a \<le> mws \<and> adjustOffer p a msr = Inr a"
proof -
  have "int64_nonneg (adjusted p mws msr)"
    using adjusted_bounds[OF p m] m by (simp add: int64_nonneg_def)
  then show ?thesis
    using adjustOffer_exact[OF p] adjusted_bounds[OF p m] adjusted_stable[OF p m] m by simp
qed

theorem adjustOffer_idempotent_witness:
  "\<exists>a. adjustOffer \<lparr>price_n = 3, price_d = 7\<rparr> 1000 200 = Inr a \<and> 0 \<le> a \<and> a \<le> 1000 \<and>
     adjustOffer \<lparr>price_n = 3, price_d = 7\<rparr> a 200 = Inr a"
  by (rule adjustOffer_idempotent) (simp_all add: valid_price_def int64_nonneg_def)



text \<open>
  Property C17. A strict-receive path payment that ends on an offer which stays in the book, with
  enough sheep to pay for it, receives exactly the wheat asked for and pays the price rounded up.
\<close>

theorem exchangeV10_strict_receive_exact:
  assumes p: "valid_price p" and l: "limits_ok mws mwr mss msr"
    and stays: "sheep_value p mwr mss < wheat_value p mws msr"
    and funds: "mwr * price_n p \<le> mss * price_d p" and pos: "0 < mwr"
  shows "exchangeV10 p mws mwr mss msr PATH_PAYMENT_STRICT_RECEIVE =
    Inr \<lparr>numWheatReceived = mwr,
         numSheepSend = div_round (mwr * price_n p) (price_d p) ROUND_UP, wheatStays = True\<rparr>"
proof -
  let ?s = "div_round (mwr * price_n p) (price_d p) ROUND_UP"
  note n = valid_priceD[OF p]
  have "sheep_value p mwr mss = mwr * price_n p" using funds by (simp add: sheep_value_def)
  then have r: "cross_ref p mws mwr mss msr PATH_PAYMENT_STRICT_RECEIVE = (mwr, ?s)"
    using stays n by (simp add: cross_ref_def Let_def)
  note facts = cross_ref_facts[OF p l r]
  have "mwr * price_n p \<le> ?s * price_d p" using div_round_up_ge[OF n(2)] .
  moreover from this have "0 < ?s * price_d p" using pos n by (meson less_le_trans mult_pos_pos)
  then have "0 < ?s" using n by (simp add: zero_less_mult_iff del: div_round_simps)
  moreover have "mwr * price_n p < ?s * price_d p \<or> price_error_ok p mwr ?s"
    using calculation(1) pos n by (intro favoured_or_exact) (auto simp del: div_round_simps)
  ultimately show ?thesis
    using exchangeV10_exact[OF p l r] applyPriceErrorThresholds_exact[OF p facts] stays pos
    by (auto simp del: div_round_simps)
qed

theorem exchangeV10_strict_receive_exact_witness:
  "exchangeV10 \<lparr>price_n = 2, price_d = 3\<rparr> 150 101 INT64_MAX INT64_MAX PATH_PAYMENT_STRICT_RECEIVE =
    Inr \<lparr>numWheatReceived = 101, numSheepSend = 68, wheatStays = True\<rparr>"
  by (subst exchangeV10_strict_receive_exact)
    (simp_all add: valid_price_def limits_ok_def int64_nonneg_def wheat_value_def sheep_value_def)

text \<open>
  The two crossings of the older protocols, over the integers: an overflowing quotient is clamped
  before it is used, so the second division cannot overflow.
\<close>

lemma old_exchange_quotient:
  assumes p: "valid_price p" and w: "int64_nonneg w" and m: "int64_nonneg m"
  obtains q where "bigDivide_i64 w (price_n p) (price_d p) r = Inr q"
    and "(case q of None \<Rightarrow> INT64_MAX | Some y \<Rightarrow> y) = min INT64_MAX (div_round (w * price_n p) (price_d p) r)"
    and "int64_nonneg (min (min INT64_MAX (div_round (w * price_n p) (price_d p) r)) m)"
proof -
  note n = valid_priceD[OF p]
  have "0 \<le> div_round (w * price_n p) (price_d p) r"
    using w n by (intro div_round_nonneg) (auto simp: int64_nonneg_def)
  then show ?thesis
    using that bigDivide_i64_exact[OF w n(3,4,2), of r] m
    by (auto simp: Let_def int64_nonneg_def simp del: div_round_simps)
qed

definition old_exchange_ok :: "Price \<Rightarrow> int \<Rightarrow> int \<Rightarrow> tx_error + ExchangeResult \<Rightarrow> bool" where
  "old_exchange_ok p w m out \<longleftrightarrow> (\<exists>res. out = Inr res \<and>
     0 \<le> er_numWheatReceived res \<and> er_numWheatReceived res \<le> w \<and>
     0 \<le> er_numSheepSend res \<and> er_numSheepSend res \<le> m \<and>
     er_numWheatReceived res * price_n p \<le> er_numSheepSend res * price_d p)"

lemma exchangeV2_ok:
  assumes p: "valid_price p" and wr: "int64_nonneg wr" and m: "int64_nonneg mwr" "int64_nonneg mss"
  shows "old_exchange_ok p (min wr mwr) mss (exchangeV2 wr p mwr mss)"
proof -
  let ?n = "price_n p" and ?d = "price_d p" and ?w = "min wr mwr"
  note n = valid_priceD[OF p]
  have w: "int64_nonneg ?w" using wr m by (auto simp: int64_nonneg_def)
  obtain q where q: "bigDivide_i64 ?w ?n ?d ROUND_DOWN = Inr q"
    "(case q of None \<Rightarrow> INT64_MAX | Some y \<Rightarrow> y) = min INT64_MAX (?w * ?n div ?d)"
    "int64_nonneg (min (min INT64_MAX (?w * ?n div ?d)) mss)"
    using old_exchange_quotient[OF p w m(2), of ROUND_DOWN] by auto
  define s where "s = min (min INT64_MAX (?w * ?n div ?d)) mss"
  have s: "int64_nonneg s" using q by (simp add: s_def)
  have "s * ?d \<le> ?w * ?n div ?d * ?d" using n by (simp add: s_def)
  also have "\<dots> \<le> ?w * ?n" using div_round_down_le[OF n(2), of "?w * ?n"] by simp
  finally have le: "s * ?d div ?n \<le> ?w" using div_round_le[OF n(1), of "s * ?d" ?w ROUND_DOWN] by simp
  have "0 \<le> s * ?d div ?n" using s n by (simp add: int64_nonneg_def pos_imp_zdiv_nonneg_iff)
  moreover have "s * ?d div ?n * ?n \<le> s * ?d" using div_round_down_le[OF n(1), of "s * ?d"] by simp
  moreover have "bigDivideOrThrow s ?d ?n ROUND_DOWN = Inr (s * ?d div ?n)"
    using s n le w by (intro bigDivideOrThrow_eqI) (auto simp: int64_nonneg_def)
  moreover have sq: "min (case q of None \<Rightarrow> INT64_MAX | Some y \<Rightarrow> y) mss = s"
    using q by (simp add: s_def)
  then have "\<exists>red. exchangeV2 wr p mwr mss =
      sbind (bigDivideOrThrow s ?d ?n ROUND_DOWN) (\<lambda>wheat.
        Inr \<lparr>er_numWheatReceived = wheat, er_numSheepSend = s, er_reduced = red\<rparr>)"
    by (auto simp: exchangeV2_def Let_def q(1))
  moreover have "0 \<le> s" "s \<le> mss" using s by (simp_all add: s_def int64_nonneg_def)
  ultimately show ?thesis
    using le by (auto simp: old_exchange_ok_def)
qed

lemma exchangeV3_ok:
  assumes p: "valid_price p" and wr: "int64_nonneg wr" and m: "int64_nonneg mwr" "int64_nonneg mss"
  shows "old_exchange_ok p (min wr mwr) mss (exchangeV3 wr p mwr mss)"
proof -
  let ?n = "price_n p" and ?d = "price_d p" and ?w = "min wr mwr"
  note n = valid_priceD[OF p]
  have w: "int64_nonneg ?w" using wr m by (auto simp: int64_nonneg_def)
  obtain q where q: "bigDivide_i64 ?w ?n ?d ROUND_UP = Inr q"
    "(case q of None \<Rightarrow> INT64_MAX | Some y \<Rightarrow> y) = min INT64_MAX (div_round (?w * ?n) ?d ROUND_UP)"
    "int64_nonneg (min (min INT64_MAX (div_round (?w * ?n) ?d ROUND_UP)) mss)"
    using old_exchange_quotient[OF p w m(2), of ROUND_UP] by auto
  define s where "s = min (min INT64_MAX (div_round (?w * ?n) ?d ROUND_UP)) mss"
  have s: "int64_nonneg s" "s \<le> mss" using q by (simp_all add: s_def)
  let ?t = "min INT64_MAX (s * ?d div ?n)"
  have t: "0 \<le> ?t" using s n by (simp add: int64_nonneg_def pos_imp_zdiv_nonneg_iff)
  have inverse: "bigDivide_i64 s ?d ?n ROUND_DOWN =
      Inr (if s * ?d div ?n \<le> INT64_MAX then Some (s * ?d div ?n) else None)"
    using bigDivide_i64_exact[OF s(1) n(4,3,1), of ROUND_DOWN] by (simp add: Let_def)
  have "min ?w ?t * ?n \<le> s * ?d div ?n * ?n" using n by simp
  also have "\<dots> \<le> s * ?d" using div_round_down_le[OF n(1), of "s * ?d"] by simp
  finally have price: "min ?w ?t * ?n \<le> s * ?d" .
  have sq: "min (case q of None \<Rightarrow> INT64_MAX | Some y \<Rightarrow> y) mss = s" using q by (simp add: s_def)
  have "\<exists>red. exchangeV3 wr p mwr mss =
      Inr \<lparr>er_numWheatReceived = min ?w ?t, er_numSheepSend = s, er_reduced = red\<rparr>"
    using sq inverse by (cases q) (auto simp: exchangeV3_def Let_def q(1))
  with price t w s show ?thesis by (auto simp: old_exchange_ok_def int64_nonneg_def)
qed

text \<open>
  Property C18. The crossings of protocols 2 and 3 to 9 never throw on valid prices and limits in
  range ("this cannot overflow at this point" holds), respect the limits, and never give the
  seller of wheat less than the price.
\<close>

theorem exchangeV2_V3_sound:
  assumes "valid_price p" and "int64_nonneg wr" and "int64_nonneg mwr" "int64_nonneg mss"
    and "exchange = exchangeV2 \<or> exchange = exchangeV3"
  shows "\<exists>res. exchange wr p mwr mss = Inr res \<and>
    0 \<le> er_numWheatReceived res \<and> er_numWheatReceived res \<le> min wr mwr \<and>
    0 \<le> er_numSheepSend res \<and> er_numSheepSend res \<le> mss \<and>
    er_numWheatReceived res * price_n p \<le> er_numSheepSend res * price_d p"
  using assms exchangeV2_ok[of p wr mwr mss] exchangeV3_ok[of p wr mwr mss]
  unfolding old_exchange_ok_def by blast

theorem exchangeV2_V3_sound_witness:
  "\<exists>res. exchangeV3 100 \<lparr>price_n = 3, price_d = 2\<rparr> 70 1000 = Inr res \<and>
    0 \<le> er_numWheatReceived res \<and> er_numWheatReceived res \<le> min 100 70 \<and>
    0 \<le> er_numSheepSend res \<and> er_numSheepSend res \<le> 1000 \<and>
    er_numWheatReceived res * price_n \<lparr>price_n = 3, price_d = 2\<rparr> \<le>
      er_numSheepSend res * price_d \<lparr>price_n = 3, price_d = 2\<rparr>"
  by (rule exchangeV2_V3_sound) (simp_all add: valid_price_def int64_nonneg_def)

end
