(* ===== verification/LedgerEntries.thy ===== *)
theory LedgerEntries
  imports OfferExchange
begin

text \<open>
  Ledger entries and the operations on their balances and liabilities: the types of
  \<^verbatim>\<open>DiamNet-ledger-entries.x\<close>, \<^verbatim>\<open>src/transactions/TransactionUtils.cpp\<close> and
  \<^verbatim>\<open>src/ledger/TrustLineWrapper.cpp\<close>.

  A reference to an entry that an operation changes is an argument and, updated, part of the result. Signed
  64-bit results are checked for their range, since the source would leave it silently. A ledger
  transaction is the map of the entries it presents: \<^verbatim>\<open>load\<close> looks a key up, and what is changed through
  the loaded handle is stored under the key of the entry.
\<close>

section \<open>Data\<close>

type_synonym AccountID = node_id

datatype Asset =
    ASSET_TYPE_NATIVE
  | ASSET_TYPE_CREDIT_ALPHANUM4 val AccountID
  | ASSET_TYPE_CREDIT_ALPHANUM12 val AccountID

record Liabilities =
  liabBuying :: int
  liabSelling :: int

record AccountEntryExtensionV2 =
  numSponsored :: uint32
  numSponsoring :: uint32
  signerSponsoringIDs :: "AccountID option list"

datatype AccountV1Ext = AccountV1Ext0 | AccountV1Ext2 AccountEntryExtensionV2

record AccountEntryExtensionV1 =
  accLiabilities :: Liabilities
  accV1Ext :: AccountV1Ext

datatype AccountExt = AccountExt0 | AccountExt1 AccountEntryExtensionV1

datatype SignerKey =
    SIGNER_KEY_TYPE_ED25519 hash
  | SIGNER_KEY_TYPE_PRE_AUTH_TX hash
  | SIGNER_KEY_TYPE_HASH_X hash

record Signer =
  signerKey :: SignerKey
  signerWeight :: uint32

record AccountEntry =
  accountID :: AccountID
  accBalance :: int
  seqNum :: int
  numSubEntries :: uint32
  inflationDest :: "AccountID option"
  accFlags :: uint32
  homeDomain :: val
  thresholds :: val
  signers :: "Signer list"
  accExt :: AccountExt

datatype TrustLineExt = TrustLineExt0 | TrustLineExt1 Liabilities

record TrustLineEntry =
  tlAccountID :: AccountID
  tlAsset :: Asset
  tlBalance :: int
  tlLimit :: int
  tlFlags :: uint32
  tlExt :: TrustLineExt

record OfferEntry =
  sellerID :: AccountID
  offerID :: int
  offerSelling :: Asset
  offerBuying :: Asset
  offerAmount :: int
  offerPrice :: Price
  offerFlags :: uint32

record DataEntry =
  dataAccountID :: AccountID
  dataName :: val
  dataValue :: val

datatype ClaimPredicate =
    CLAIM_PREDICATE_UNCONDITIONAL
  | CLAIM_PREDICATE_AND "ClaimPredicate list"
  | CLAIM_PREDICATE_OR "ClaimPredicate list"
  | CLAIM_PREDICATE_NOT "ClaimPredicate option"
  | CLAIM_PREDICATE_BEFORE_ABSOLUTE_TIME int
  | CLAIM_PREDICATE_BEFORE_RELATIVE_TIME int

record Claimant =
  destination :: AccountID
  claimPredicate :: ClaimPredicate

record ClaimableBalanceEntry =
  balanceID :: hash
  claimants :: "Claimant list"
  claimAsset :: Asset
  claimAmount :: int

datatype LedgerEntryData =
    ACCOUNT AccountEntry
  | TRUSTLINE TrustLineEntry
  | OFFER OfferEntry
  | DATA DataEntry
  | CLAIMABLE_BALANCE ClaimableBalanceEntry

datatype LedgerEntryExt = LedgerEntryExt0 | LedgerEntryExt1 "AccountID option"

record LedgerEntry =
  lastModifiedLedgerSeq :: uint32
  entryData :: LedgerEntryData
  entryExt :: LedgerEntryExt

datatype LedgerKey =
    KeyAccount AccountID
  | KeyTrustLine AccountID Asset
  | KeyOffer AccountID int
  | KeyData AccountID val
  | KeyClaimableBalance hash

text \<open>The fields of a ledger header that hold hashes and the consensus value are left out.\<close>

record LedgerHeader =
  ledgerVersion :: uint32
  ledgerSeq :: uint32
  totalCoins :: int
  feePool :: int
  inflationSeq :: uint32
  idPool :: uint64
  baseFee :: uint32
  baseReserve :: uint32
  maxTxSetSize :: uint32

type_synonym Ledger = "LedgerKey \<rightharpoonup> LedgerEntry"

definition LedgerEntryKey :: "LedgerEntry \<Rightarrow> LedgerKey" where
  "LedgerEntryKey e =
     (case entryData e of
        ACCOUNT a \<Rightarrow> KeyAccount (accountID a)
      | TRUSTLINE t \<Rightarrow> KeyTrustLine (tlAccountID t) (tlAsset t)
      | OFFER x \<Rightarrow> KeyOffer (sellerID x) (offerID x)
      | DATA d \<Rightarrow> KeyData (dataAccountID d) (dataName d)
      | CLAIMABLE_BALANCE c \<Rightarrow> KeyClaimableBalance (balanceID c))"

text \<open>An access to the case \<^verbatim>\<open>alphaNum12\<close> of the native asset throws.\<close>

definition getIssuer :: "Asset \<Rightarrow> tx_error + AccountID" where
  "getIssuer asset =
     (case asset of
        ASSET_TYPE_CREDIT_ALPHANUM4 _ issuer \<Rightarrow> Inr issuer
      | ASSET_TYPE_CREDIT_ALPHANUM12 _ issuer \<Rightarrow> Inr issuer
      | ASSET_TYPE_NATIVE \<Rightarrow> Inl WrongUnion)"

definition compareAsset :: "Asset \<Rightarrow> Asset \<Rightarrow> bool" where
  "compareAsset a b =
     (case (a, b) of
        (ASSET_TYPE_NATIVE, ASSET_TYPE_NATIVE) \<Rightarrow> True
      | (ASSET_TYPE_CREDIT_ALPHANUM4 c i, ASSET_TYPE_CREDIT_ALPHANUM4 c' i') \<Rightarrow> i = i' \<and> c = c'
      | (ASSET_TYPE_CREDIT_ALPHANUM12 c i, ASSET_TYPE_CREDIT_ALPHANUM12 c' i') \<Rightarrow> i = i' \<and> c = c'
      | _ \<Rightarrow> False)"

text \<open>A result of signed 64-bit arithmetic.\<close>

definition i64 :: "int \<Rightarrow> tx_error + int" where
  "i64 x = (if - INT64_MAX - 1 \<le> x \<and> x \<le> INT64_MAX then Inr x else Inl SignedOverflow)"

section \<open>Extensions of entries\<close>

definition prepareAccountEntryExtensionV1 :: "AccountEntry \<Rightarrow> AccountEntryExtensionV1 \<times> AccountEntry" where
  "prepareAccountEntryExtensionV1 ae =
     (case accExt ae of
        AccountExt0 \<Rightarrow>
          let v1 = \<lparr>accLiabilities = \<lparr>liabBuying = 0, liabSelling = 0\<rparr>, accV1Ext = AccountV1Ext0\<rparr>
          in (v1, ae\<lparr>accExt := AccountExt1 v1\<rparr>)
      | AccountExt1 v1 \<Rightarrow> (v1, ae))"

definition prepareAccountEntryExtensionV2 :: "AccountEntry \<Rightarrow> AccountEntryExtensionV2 \<times> AccountEntry" where
  "prepareAccountEntryExtensionV2 ae =
     (let (v1, ae) = prepareAccountEntryExtensionV1 ae in
      case accV1Ext v1 of
        AccountV1Ext0 \<Rightarrow>
          let v2 = \<lparr>numSponsored = 0, numSponsoring = 0, signerSponsoringIDs = replicate (length (signers ae)) None\<rparr>
          in (v2, ae\<lparr>accExt := AccountExt1 (v1\<lparr>accV1Ext := AccountV1Ext2 v2\<rparr>)\<rparr>)
      | AccountV1Ext2 v2 \<Rightarrow> (v2, ae))"

definition prepareTrustLineEntryExtensionV1 :: "TrustLineEntry \<Rightarrow> Liabilities \<times> TrustLineEntry" where
  "prepareTrustLineEntryExtensionV1 trust =
     (case tlExt trust of
        TrustLineExt0 \<Rightarrow>
          let v1 = \<lparr>liabBuying = 0, liabSelling = 0\<rparr> in (v1, trust\<lparr>tlExt := TrustLineExt1 v1\<rparr>)
      | TrustLineExt1 v1 \<Rightarrow> (v1, trust))"

definition prepareLedgerEntryExtensionV1 :: "LedgerEntry \<Rightarrow> AccountID option \<times> LedgerEntry" where
  "prepareLedgerEntryExtensionV1 le =
     (case entryExt le of
        LedgerEntryExt0 \<Rightarrow> (None, le\<lparr>entryExt := LedgerEntryExt1 None\<rparr>)
      | LedgerEntryExt1 v1 \<Rightarrow> (v1, le))"

definition hasAccountEntryExtV2 :: "AccountEntry \<Rightarrow> bool" where
  "hasAccountEntryExtV2 ae =
     (case accExt ae of
        AccountExt1 v1 \<Rightarrow> (case accV1Ext v1 of AccountV1Ext2 _ \<Rightarrow> True | AccountV1Ext0 \<Rightarrow> False)
      | AccountExt0 \<Rightarrow> False)"

definition getAccountEntryExtensionV2 :: "AccountEntry \<Rightarrow> tx_error + AccountEntryExtensionV2" where
  "getAccountEntryExtensionV2 ae =
     (case accExt ae of
        AccountExt1 v1 \<Rightarrow>
          (case accV1Ext v1 of
             AccountV1Ext2 v2 \<Rightarrow> Inr v2
           | AccountV1Ext0 \<Rightarrow> Inl (RuntimeError ''expected AccountEntry extension V2''))
      | AccountExt0 \<Rightarrow> Inl (RuntimeError ''expected AccountEntry extension V2''))"

definition getLedgerEntryExtensionV1 :: "LedgerEntry \<Rightarrow> tx_error + AccountID option" where
  "getLedgerEntryExtensionV1 le =
     (case entryExt le of
        LedgerEntryExt1 v1 \<Rightarrow> Inr v1
      | LedgerEntryExt0 \<Rightarrow> Inl (RuntimeError ''expected LedgerEntry extension V1''))"

section \<open>Flags\<close>

abbreviation AUTHORIZED_FLAG :: uint32 where
  "AUTHORIZED_FLAG \<equiv> 1"

abbreviation AUTHORIZED_TO_MAINTAIN_LIABILITIES_FLAG :: uint32 where
  "AUTHORIZED_TO_MAINTAIN_LIABILITIES_FLAG \<equiv> 2"

abbreviation MASK_TRUSTLINE_FLAGS :: uint32 where
  "MASK_TRUSTLINE_FLAGS \<equiv> 1"

abbreviation MASK_TRUSTLINE_FLAGS_V13 :: uint32 where
  "MASK_TRUSTLINE_FLAGS_V13 \<equiv> 3"

definition trustLine :: "LedgerEntry \<Rightarrow> tx_error + TrustLineEntry" where
  "trustLine le = (case entryData le of TRUSTLINE trust \<Rightarrow> Inr trust | _ \<Rightarrow> Inl WrongUnion)"

definition account :: "LedgerEntry \<Rightarrow> tx_error + AccountEntry" where
  "account le = (case entryData le of ACCOUNT acc \<Rightarrow> Inr acc | _ \<Rightarrow> Inl WrongUnion)"

definition isAuthorized :: "LedgerEntry \<Rightarrow> tx_error + bool" where
  "isAuthorized le = sbind (trustLine le) (\<lambda>trust. Inr (and (tlFlags trust) AUTHORIZED_FLAG \<noteq> 0))"

definition isAuthorizedToMaintainLiabilities :: "LedgerEntry \<Rightarrow> tx_error + bool" where
  "isAuthorizedToMaintainLiabilities le =
     sbind (isAuthorized le) (\<lambda>authorized.
     if authorized then Inr True
     else sbind (trustLine le) (\<lambda>trust. Inr (and (tlFlags trust) AUTHORIZED_TO_MAINTAIN_LIABILITIES_FLAG \<noteq> 0)))"

definition isAuthRequired :: "LedgerEntry \<Rightarrow> tx_error + bool" where
  "isAuthRequired le = sbind (account le) (\<lambda>acc. Inr (and (accFlags acc) 1 \<noteq> 0))"

definition isImmutableAuth :: "LedgerEntry \<Rightarrow> tx_error + bool" where
  "isImmutableAuth le = sbind (account le) (\<lambda>acc. Inr (and (accFlags acc) 4 \<noteq> 0))"

definition checkAuthorization :: "LedgerHeader \<Rightarrow> LedgerEntry \<Rightarrow> tx_error + bool" where
  "checkAuthorization header le =
     (if ledgerVersion header < 10 then isAuthorized le
      else sbind (isAuthorizedToMaintainLiabilities le) (\<lambda>maintain.
        if maintain then Inr True else Inl (RuntimeError ''Invalid authorization'')))"

definition trustLineFlagIsValid :: "uint32 \<Rightarrow> uint32 \<Rightarrow> bool" where
  "trustLineFlagIsValid flag version =
     (if version < 13 then and flag (not MASK_TRUSTLINE_FLAGS) = 0
      else
        let invalidAuthCombo = or AUTHORIZED_FLAG AUTHORIZED_TO_MAINTAIN_LIABILITIES_FLAG
        in and flag (not MASK_TRUSTLINE_FLAGS_V13) = 0 \<and> and flag invalidAuthCombo \<noteq> invalidAuthCombo)"

definition setAuthorized :: "LedgerHeader \<Rightarrow> uint32 \<Rightarrow> LedgerEntry \<Rightarrow> tx_error + LedgerEntry" where
  "setAuthorized header authorized le =
     (if \<not> trustLineFlagIsValid authorized (ledgerVersion header) then
        Inl (RuntimeError ''trying to set invalid trust line flag'')
      else sbind (trustLine le) (\<lambda>trust. Inr (le\<lparr>entryData := TRUSTLINE (trust\<lparr>tlFlags := authorized\<rparr>)\<rparr>)))"

section \<open>Balances and liabilities\<close>

text \<open>Up to protocol version 8 the product is computed with 32 bits.\<close>

definition getMinBalanceOf :: "LedgerHeader \<Rightarrow> uint32 \<Rightarrow> uint32 \<Rightarrow> uint32 \<Rightarrow> tx_error + int" where
  "getMinBalanceOf lh subentries sponsoring sponsored =
     (if ledgerVersion lh < 14 \<and> (sponsored \<noteq> 0 \<or> sponsoring \<noteq> 0) then
        Inl (RuntimeError ''unexpected sponsorship state'')
      else if ledgerVersion lh \<le> 8 then Inr (uint ((2 + subentries) * baseReserve lh))
      else
        let effEntries = 2 + uint subentries + uint sponsoring - uint sponsored
        in if effEntries < 0 then Inl (RuntimeError ''unexpected account state'')
           else i64 (effEntries * uint (baseReserve lh)))"

definition getMinBalance :: "LedgerHeader \<Rightarrow> AccountEntry \<Rightarrow> tx_error + int" where
  "getMinBalance header acc =
     (let (sponsoring, sponsored) =
        (case accExt acc of
           AccountExt1 v1 \<Rightarrow>
             (case accV1Ext v1 of
                AccountV1Ext2 v2 \<Rightarrow> if 14 \<le> ledgerVersion header then (numSponsoring v2, numSponsored v2) else (0, 0)
              | AccountV1Ext0 \<Rightarrow> (0, 0))
         | AccountExt0 \<Rightarrow> (0, 0))
      in getMinBalanceOf header (numSubEntries acc) sponsoring sponsored)"

definition accountLiabilities :: "AccountEntry \<Rightarrow> Liabilities" where
  "accountLiabilities acc =
     (case accExt acc of
        AccountExt0 \<Rightarrow> \<lparr>liabBuying = 0, liabSelling = 0\<rparr>
      | AccountExt1 v1 \<Rightarrow> accLiabilities v1)"

definition trustLineLiabilities :: "TrustLineEntry \<Rightarrow> Liabilities" where
  "trustLineLiabilities trust =
     (case tlExt trust of
        TrustLineExt0 \<Rightarrow> \<lparr>liabBuying = 0, liabSelling = 0\<rparr>
      | TrustLineExt1 liab \<Rightarrow> liab)"

definition getBuyingLiabilities :: "LedgerHeader \<Rightarrow> LedgerEntry \<Rightarrow> tx_error + int" where
  "getBuyingLiabilities header le =
     (if ledgerVersion header < 10 then Inl (RuntimeError ''Liabilities accessed before version 10'')
      else
        case entryData le of
          ACCOUNT acc \<Rightarrow> Inr (liabBuying (accountLiabilities acc))
        | TRUSTLINE trust \<Rightarrow> Inr (liabBuying (trustLineLiabilities trust))
        | _ \<Rightarrow> Inl (RuntimeError ''Unknown LedgerEntry type''))"

definition getSellingLiabilities :: "LedgerHeader \<Rightarrow> LedgerEntry \<Rightarrow> tx_error + int" where
  "getSellingLiabilities header le =
     (if ledgerVersion header < 10 then Inl (RuntimeError ''Liabilities accessed before version 10'')
      else
        case entryData le of
          ACCOUNT acc \<Rightarrow> Inr (liabSelling (accountLiabilities acc))
        | TRUSTLINE trust \<Rightarrow> Inr (liabSelling (trustLineLiabilities trust))
        | _ \<Rightarrow> Inl (RuntimeError ''Unknown LedgerEntry type''))"

definition getAvailableBalance :: "LedgerHeader \<Rightarrow> LedgerEntry \<Rightarrow> tx_error + int" where
  "getAvailableBalance header le =
     sbind
       (case entryData le of
          ACCOUNT acc \<Rightarrow> sbind (getMinBalance header acc) (\<lambda>minBalance. i64 (accBalance acc - minBalance))
        | TRUSTLINE trust \<Rightarrow> sbind (checkAuthorization header le) (\<lambda>_. Inr (tlBalance trust))
        | _ \<Rightarrow> Inl (RuntimeError ''Unknown LedgerEntry type''))
       (\<lambda>avail.
        if 10 \<le> ledgerVersion header
        then sbind (getSellingLiabilities header le) (\<lambda>liab. i64 (avail - liab))
        else Inr avail)"

definition getMaxAmountReceive :: "LedgerHeader \<Rightarrow> LedgerEntry \<Rightarrow> tx_error + int" where
  "getMaxAmountReceive header le =
     (case entryData le of
        ACCOUNT acc \<Rightarrow>
          if 10 \<le> ledgerVersion header then
            sbind (getBuyingLiabilities header le) (\<lambda>liab.
            sbind (i64 (accBalance acc + liab)) (\<lambda>used.
            i64 (INT64_MAX - used)))
          else Inr INT64_MAX
      | TRUSTLINE trust \<Rightarrow>
          sbind (checkAuthorization header le) (\<lambda>authorized.
          if \<not> authorized then Inr 0
          else
            sbind (i64 (tlLimit trust - tlBalance trust)) (\<lambda>amount.
            if 10 \<le> ledgerVersion header
            then sbind (getBuyingLiabilities header le) (\<lambda>liab. i64 (amount - liab))
            else Inr amount))
      | _ \<Rightarrow> Inl (RuntimeError ''Unknown LedgerEntry type''))"

definition getMinimumLimit :: "LedgerHeader \<Rightarrow> LedgerEntry \<Rightarrow> tx_error + int" where
  "getMinimumLimit header le =
     sbind (trustLine le) (\<lambda>trust.
     if 10 \<le> ledgerVersion header
     then sbind (getBuyingLiabilities header le) (\<lambda>liab. i64 (tlBalance trust + liab))
     else Inr (tlBalance trust))"

definition addBalanceTo :: "LedgerHeader \<Rightarrow> int \<Rightarrow> LedgerEntry \<Rightarrow> tx_error + bool \<times> LedgerEntry" where
  "addBalanceTo header delta le =
     (case entryData le of
        ACCOUNT acc \<Rightarrow>
          if delta = 0 then Inr (True, le)
          else
            sbind (addBalance (accBalance acc) delta INT64_MAX) (\<lambda>r.
            case r of
              None \<Rightarrow> Inr (False, le)
            | Some newBalance \<Rightarrow>
                sbind
                  (if 10 \<le> ledgerVersion header then
                     sbind (getMinBalance header acc) (\<lambda>minBalance.
                     sbind
                       (if delta < 0 then
                          sbind (i64 (newBalance - minBalance)) (\<lambda>free.
                          sbind (getSellingLiabilities header le) (\<lambda>liab. Inr (free < liab)))
                        else Inr False)
                       (\<lambda>tooLow.
                        if tooLow then Inr False
                        else
                          sbind (getBuyingLiabilities header le) (\<lambda>liab.
                          sbind (i64 (INT64_MAX - liab)) (\<lambda>most. Inr (newBalance \<le> most)))))
                   else Inr True)
                  (\<lambda>ok. Inr (if ok then (True, le\<lparr>entryData := ACCOUNT (acc\<lparr>accBalance := newBalance\<rparr>)\<rparr>) else (False, le))))
      | TRUSTLINE trust \<Rightarrow>
          if delta = 0 then Inr (True, le)
          else
            sbind (checkAuthorization header le) (\<lambda>authorized.
            if \<not> authorized then Inr (False, le)
            else
              sbind (addBalance (tlBalance trust) delta (tlLimit trust)) (\<lambda>r.
              case r of
                None \<Rightarrow> Inr (False, le)
              | Some newBalance \<Rightarrow>
                  sbind
                    (if 10 \<le> ledgerVersion header then
                       sbind (getSellingLiabilities header le) (\<lambda>liab.
                       if newBalance < liab then Inr False
                       else
                         sbind (getBuyingLiabilities header le) (\<lambda>liab.
                         sbind (i64 (tlLimit trust - liab)) (\<lambda>most. Inr (newBalance \<le> most))))
                     else Inr True)
                    (\<lambda>ok. Inr (if ok then (True, le\<lparr>entryData := TRUSTLINE (trust\<lparr>tlBalance := newBalance\<rparr>)\<rparr>) else (False, le)))))
      | _ \<Rightarrow> Inl (RuntimeError ''Unknown LedgerEntry type''))"

definition setAccountLiabilities :: "(Liabilities \<Rightarrow> Liabilities) \<Rightarrow> AccountEntry \<Rightarrow> AccountEntry" where
  "setAccountLiabilities f acc =
     (let (v1, acc) = prepareAccountEntryExtensionV1 acc
      in acc\<lparr>accExt := AccountExt1 (v1\<lparr>accLiabilities := f (accLiabilities v1)\<rparr>)\<rparr>)"

definition setTrustLineLiabilities :: "(Liabilities \<Rightarrow> Liabilities) \<Rightarrow> TrustLineEntry \<Rightarrow> TrustLineEntry" where
  "setTrustLineLiabilities f trust =
     (let (v1, trust) = prepareTrustLineEntryExtensionV1 trust in trust\<lparr>tlExt := TrustLineExt1 (f v1)\<rparr>)"

definition addBuyingLiabilities :: "LedgerHeader \<Rightarrow> int \<Rightarrow> LedgerEntry \<Rightarrow> tx_error + bool \<times> LedgerEntry" where
  "addBuyingLiabilities header delta le =
     sbind (getBuyingLiabilities header le) (\<lambda>buyingLiab.
     if delta = 0 then Inr (True, le)
     else
       case entryData le of
         ACCOUNT acc \<Rightarrow>
           sbind (i64 (INT64_MAX - accBalance acc)) (\<lambda>maxLiabilities.
           sbind (addBalance buyingLiab delta maxLiabilities) (\<lambda>r.
           Inr (case r of
             None \<Rightarrow> (False, le)
           | Some liab \<Rightarrow> (True, le\<lparr>entryData := ACCOUNT (setAccountLiabilities (\<lambda>l. l\<lparr>liabBuying := liab\<rparr>) acc)\<rparr>))))
       | TRUSTLINE trust \<Rightarrow>
           sbind (checkAuthorization header le) (\<lambda>authorized.
           if \<not> authorized then Inr (False, le)
           else
             sbind (i64 (tlLimit trust - tlBalance trust)) (\<lambda>maxLiabilities.
             sbind (addBalance buyingLiab delta maxLiabilities) (\<lambda>r.
             Inr (case r of
               None \<Rightarrow> (False, le)
             | Some liab \<Rightarrow> (True, le\<lparr>entryData := TRUSTLINE (setTrustLineLiabilities (\<lambda>l. l\<lparr>liabBuying := liab\<rparr>) trust)\<rparr>)))))
       | _ \<Rightarrow> Inl (RuntimeError ''Unknown LedgerEntry type''))"

definition addSellingLiabilities :: "LedgerHeader \<Rightarrow> int \<Rightarrow> LedgerEntry \<Rightarrow> tx_error + bool \<times> LedgerEntry" where
  "addSellingLiabilities header delta le =
     sbind (getSellingLiabilities header le) (\<lambda>sellingLiab.
     if delta = 0 then Inr (True, le)
     else
       case entryData le of
         ACCOUNT acc \<Rightarrow>
           sbind (getMinBalance header acc) (\<lambda>minBalance.
           sbind (i64 (accBalance acc - minBalance)) (\<lambda>maxLiabilities.
           if maxLiabilities < 0 then Inr (False, le)
           else
             sbind (addBalance sellingLiab delta maxLiabilities) (\<lambda>r.
             Inr (case r of
               None \<Rightarrow> (False, le)
             | Some liab \<Rightarrow> (True, le\<lparr>entryData := ACCOUNT (setAccountLiabilities (\<lambda>l. l\<lparr>liabSelling := liab\<rparr>) acc)\<rparr>)))))
       | TRUSTLINE trust \<Rightarrow>
           sbind (checkAuthorization header le) (\<lambda>authorized.
           if \<not> authorized then Inr (False, le)
           else
             sbind (addBalance sellingLiab delta (tlBalance trust)) (\<lambda>r.
             Inr (case r of
               None \<Rightarrow> (False, le)
             | Some liab \<Rightarrow> (True, le\<lparr>entryData := TRUSTLINE (setTrustLineLiabilities (\<lambda>l. l\<lparr>liabSelling := liab\<rparr>) trust)\<rparr>))))
       | _ \<Rightarrow> Inl (RuntimeError ''Unknown LedgerEntry type''))"

definition generateID :: "LedgerHeader \<Rightarrow> uint64 \<times> LedgerHeader" where
  "generateID header = (idPool header + 1, header\<lparr>idPool := idPool header + 1\<rparr>)"

definition getStartingSequenceNumber :: "uint32 \<Rightarrow> uint64" where
  "getStartingSequenceNumber s = push_bit 32 (ucast s)"

section \<open>What the updates do\<close>

text \<open>
  An entry is in order when its selling liabilities are covered by its balance and its buying liabilities
  fit under its limit.
\<close>

definition amounts_ok :: "Liabilities \<Rightarrow> int \<Rightarrow> int \<Rightarrow> bool" where
  "amounts_ok liab balance limit \<longleftrightarrow>
     0 \<le> liabSelling liab \<and> liabSelling liab \<le> balance \<and> 0 \<le> liabBuying liab \<and>
     balance + liabBuying liab \<le> limit \<and> limit \<le> INT64_MAX"

definition entry_ok :: "LedgerEntry \<Rightarrow> bool" where
  "entry_ok le \<longleftrightarrow>
     (case entryData le of
        ACCOUNT acc \<Rightarrow> amounts_ok (accountLiabilities acc) (accBalance acc) INT64_MAX
      | TRUSTLINE trust \<Rightarrow> amounts_ok (trustLineLiabilities trust) (tlBalance trust) (tlLimit trust)
      | _ \<Rightarrow> True)"

text \<open>
  An update of an entry succeeds or is refused without an error; it keeps the entry in order and leaves, when
  it succeeds, the given amounts that can be sent and received, and otherwise the entry as it was.
\<close>

definition updated :: "LedgerHeader \<Rightarrow> LedgerEntry \<Rightarrow> bool \<Rightarrow> int \<Rightarrow> int \<Rightarrow> tx_error + bool \<times> LedgerEntry \<Rightarrow> bool" where
  "updated h le ok avail room r \<longleftrightarrow>
     (case r of
        Inl _ \<Rightarrow> False
      | Inr (b, le') \<Rightarrow>
          b = ok \<and> entry_ok le' \<and> LedgerEntryKey le' = LedgerEntryKey le \<and>
          (if ok then getAvailableBalance h le' = Inr avail \<and> getMaxAmountReceive h le' = Inr room else le' = le))"

lemma i64_in: "- INT64_MAX - 1 \<le> x \<Longrightarrow> x \<le> INT64_MAX \<Longrightarrow> i64 x = Inr x"
  by (simp add: i64_def)

lemma i64_Inr: "i64 x = Inr y \<longleftrightarrow> y = x \<and> - INT64_MAX - 1 \<le> x \<and> x \<le> INT64_MAX"
  by (auto simp: i64_def)

lemma minBalance_bounds: "getMinBalance h acc = Inr m \<Longrightarrow> 0 \<le> m \<and> m \<le> INT64_MAX"
proof -
  assume "getMinBalance h acc = Inr m"
  then obtain n a b where m: "getMinBalanceOf h n a b = Inr m" by (auto simp: getMinBalance_def Let_def split: prod.splits)
  have "uint ((2 + n) * baseReserve h) \<le> INT64_MAX" using uint_lt2p[of "(2 + n) * baseReserve h"] by simp
  with m show ?thesis
    unfolding getMinBalanceOf_def Let_def by (auto simp: i64_Inr split: if_splits)
qed

lemma minBalance_update [simp]:
  "getMinBalance h (acc\<lparr>accBalance := b\<rparr>) = getMinBalance h acc"
  "getMinBalance h (setAccountLiabilities f acc) = getMinBalance h acc"
  by (auto simp: getMinBalance_def setAccountLiabilities_def prepareAccountEntryExtensionV1_def Let_def split: AccountExt.splits)

lemma liabilities_update [simp]:
  "accountLiabilities (acc\<lparr>accBalance := b\<rparr>) = accountLiabilities acc"
  "accountLiabilities (setAccountLiabilities f acc) = f (accountLiabilities acc)"
  "accBalance (setAccountLiabilities f acc) = accBalance acc"
  "accountID (setAccountLiabilities f acc) = accountID acc"
  "trustLineLiabilities (trust\<lparr>tlBalance := b\<rparr>) = trustLineLiabilities trust"
  "trustLineLiabilities (setTrustLineLiabilities f trust) = f (trustLineLiabilities trust)"
  "tlBalance (setTrustLineLiabilities f trust) = tlBalance trust" "tlLimit (setTrustLineLiabilities f trust) = tlLimit trust"
  "tlFlags (setTrustLineLiabilities f trust) = tlFlags trust" "tlAccountID (setTrustLineLiabilities f trust) = tlAccountID trust"
  "tlAsset (setTrustLineLiabilities f trust) = tlAsset trust"
  by (auto simp: accountLiabilities_def setAccountLiabilities_def prepareAccountEntryExtensionV1_def trustLineLiabilities_def
      setTrustLineLiabilities_def prepareTrustLineEntryExtensionV1_def Let_def split: AccountExt.splits TrustLineExt.splits)

text \<open>Authorization depends on the flags only.\<close>

definition maintains :: "uint32 \<Rightarrow> bool" where
  "maintains flags \<longleftrightarrow> and flags AUTHORIZED_FLAG \<noteq> 0 \<or> and flags AUTHORIZED_TO_MAINTAIN_LIABILITIES_FLAG \<noteq> 0"

lemma checkAuthorization_iff:
  assumes "10 \<le> ledgerVersion h" "entryData le = TRUSTLINE trust"
  shows "checkAuthorization h le =
    (if maintains (tlFlags trust) then Inr True else Inl (RuntimeError ''Invalid authorization''))"
  using assms by (auto simp: checkAuthorization_def isAuthorizedToMaintainLiabilities_def isAuthorized_def trustLine_def maintains_def)

text \<open>
  Both kinds of entries are purses: a balance between a reserve and a limit, of which a part is promised to
  buyers and for which a part of the room is promised to sellers. An account whose reserve cannot be computed
  and a trust line without authorization are none.
\<close>

record Purse =
  pReserve :: int
  pBalance :: int
  pLimit :: int
  pBuying :: int
  pSelling :: int

definition purse :: "LedgerHeader \<Rightarrow> LedgerEntry \<Rightarrow> Purse option" where
  "purse h le =
     (case entryData le of
        ACCOUNT acc \<Rightarrow>
          (case getMinBalance h acc of
             Inr m \<Rightarrow> Some \<lparr>pReserve = m, pBalance = accBalance acc, pLimit = INT64_MAX,
               pBuying = liabBuying (accountLiabilities acc), pSelling = liabSelling (accountLiabilities acc)\<rparr>
           | Inl _ \<Rightarrow> None)
      | TRUSTLINE trust \<Rightarrow>
          if maintains (tlFlags trust)
          then Some \<lparr>pReserve = 0, pBalance = tlBalance trust, pLimit = tlLimit trust,
            pBuying = liabBuying (trustLineLiabilities trust), pSelling = liabSelling (trustLineLiabilities trust)\<rparr>
          else None
      | _ \<Rightarrow> None)"

definition purse_ok :: "Purse \<Rightarrow> bool" where
  "purse_ok p \<longleftrightarrow>
     0 \<le> pReserve p \<and> pReserve p \<le> INT64_MAX \<and> 0 \<le> pSelling p \<and> pSelling p \<le> pBalance p \<and>
     0 \<le> pBuying p \<and> pBalance p + pBuying p \<le> pLimit p \<and> pLimit p \<le> INT64_MAX"

abbreviation pAvailable :: "Purse \<Rightarrow> int" where
  "pAvailable p \<equiv> pBalance p - pReserve p - pSelling p"

abbreviation pRoom :: "Purse \<Rightarrow> int" where
  "pRoom p \<equiv> pLimit p - pBalance p - pBuying p"

lemma purse_cases:
  assumes "purse h le = Some p"
  obtains (account) acc where "entryData le = ACCOUNT acc" "getMinBalance h acc = Inr (pReserve p)"
      "accBalance acc = pBalance p" "pLimit p = INT64_MAX"
      "liabBuying (accountLiabilities acc) = pBuying p" "liabSelling (accountLiabilities acc) = pSelling p"
  | (trust) t where "entryData le = TRUSTLINE t" "maintains (tlFlags t)" "pReserve p = 0"
      "tlBalance t = pBalance p" "tlLimit t = pLimit p"
      "liabBuying (trustLineLiabilities t) = pBuying p" "liabSelling (trustLineLiabilities t) = pSelling p"
  using assms unfolding purse_def by (auto split: LedgerEntryData.splits sum.splits if_splits)

lemma entry_ok_purse: "purse h le = Some p \<Longrightarrow> entry_ok le \<longleftrightarrow> purse_ok p"
  by (erule purse_cases)
    (use minBalance_bounds[of h _ "pReserve p"] in \<open>auto simp: entry_ok_def amounts_ok_def purse_ok_def\<close>)

lemma purse_amounts:
  assumes "10 \<le> ledgerVersion h" "purse h le = Some p" "purse_ok p"
  shows "getAvailableBalance h le = i64 (pAvailable p)" "getMaxAmountReceive h le = Inr (pRoom p)"
proof -
  have v: "\<not> ledgerVersion h < 10" using assms(1) by simp
  have ok: "i64 (pBalance p - pReserve p) = Inr (pBalance p - pReserve p)" "i64 (pBalance p + pBuying p) = Inr (pBalance p + pBuying p)"
    "i64 (INT64_MAX - (pBalance p + pBuying p)) = Inr (INT64_MAX - (pBalance p + pBuying p))"
    "i64 (pLimit p - pBalance p) = Inr (pLimit p - pBalance p)" "i64 (pRoom p) = Inr (pRoom p)"
    using assms(3) by (simp_all add: purse_ok_def i64_in)
  from assms(2) have "getAvailableBalance h le = i64 (pAvailable p) \<and> getMaxAmountReceive h le = Inr (pRoom p)"
  proof (cases rule: purse_cases)
    case (account acc)
    then show ?thesis using assms(1) v ok
      by (simp add: getAvailableBalance_def getSellingLiabilities_def getMaxAmountReceive_def getBuyingLiabilities_def)
  next
    case (trust t)
    then show ?thesis using assms(1) v ok checkAuthorization_iff[OF assms(1) trust(1)]
      by (simp add: getAvailableBalance_def getSellingLiabilities_def getMaxAmountReceive_def getBuyingLiabilities_def)
  qed
  then show "getAvailableBalance h le = i64 (pAvailable p)" "getMaxAmountReceive h le = Inr (pRoom p)" by blast+
qed

lemma available_purse:
  assumes "10 \<le> ledgerVersion h" "entry_ok le" "getAvailableBalance h le = Inr avail"
  obtains p where "purse h le = Some p" "purse_ok p" "avail = pAvailable p" "- INT64_MAX - 1 \<le> avail"
proof -
  have "purse h le \<noteq> None"
    using assms(3) checkAuthorization_iff[OF assms(1), of le]
    by (auto simp: purse_def getAvailableBalance_def split: LedgerEntryData.splits sum.splits)
  then obtain p where p: "purse h le = Some p" by blast
  then have "purse_ok p" using entry_ok_purse assms(2) by blast
  then show ?thesis using that p assms(3) purse_amounts(1)[OF assms(1) p] by (simp add: i64_Inr)
qed

text \<open>The updates on purses; an update that is refused is none.\<close>

definition pay :: "int \<Rightarrow> Purse \<Rightarrow> Purse option" where
  "pay d p = (if d = 0 \<or> d < 0 \<and> - d \<le> pAvailable p \<or> 0 < d \<and> d \<le> pRoom p then Some (p\<lparr>pBalance := pBalance p + d\<rparr>) else None)"

definition promiseRoom :: "int \<Rightarrow> Purse \<Rightarrow> Purse option" where
  "promiseRoom d p = (if d = 0 \<or> 0 \<le> pBuying p + d \<and> d \<le> pRoom p then Some (p\<lparr>pBuying := pBuying p + d\<rparr>) else None)"

definition promiseBalance :: "int \<Rightarrow> Purse \<Rightarrow> Purse option" where
  "promiseBalance d p = (if d = 0 \<or> 0 \<le> pSelling p + d \<and> d \<le> pAvailable p then Some (p\<lparr>pSelling := pSelling p + d\<rparr>) else None)"

lemma purse_updates_ok:
  assumes "purse_ok p"
  shows "pay d p = Some p' \<Longrightarrow> purse_ok p'" "promiseRoom d p = Some p' \<Longrightarrow> purse_ok p'" "promiseBalance d p = Some p' \<Longrightarrow> purse_ok p'"
  using assms by (auto simp: pay_def promiseRoom_def promiseBalance_def purse_ok_def split: if_splits)

lemma available_ok: "purse_ok p \<Longrightarrow> - INT64_MAX - 1 \<le> pAvailable p \<Longrightarrow> i64 (pAvailable p) = Inr (pAvailable p)"
  by (rule i64_in) (simp_all add: purse_ok_def)

lemma purse_updates_amounts:
  assumes "purse_ok p" "- INT64_MAX - 1 \<le> pAvailable p"
  shows "pay d p = Some q \<Longrightarrow> purse_ok q \<and> i64 (pAvailable q) = Inr (pAvailable p + d) \<and> pRoom q = pRoom p - d"
    "promiseRoom d p = Some q \<Longrightarrow> purse_ok q \<and> i64 (pAvailable q) = Inr (pAvailable p) \<and> pRoom q = pRoom p - d"
    "promiseBalance d p = Some q \<Longrightarrow> purse_ok q \<and> i64 (pAvailable q) = Inr (pAvailable p - d) \<and> pRoom q = pRoom p"
proof -
  show "purse_ok q \<and> i64 (pAvailable q) = Inr (pAvailable p + d) \<and> pRoom q = pRoom p - d" if "pay d p = Some q"
    using purse_updates_ok(1)[OF assms(1) that] available_ok[of q] assms(2) that
    by (auto simp: pay_def split: if_splits)
  show "purse_ok q \<and> i64 (pAvailable q) = Inr (pAvailable p) \<and> pRoom q = pRoom p - d" if "promiseRoom d p = Some q"
    using purse_updates_ok(2)[OF assms(1) that] available_ok[of q] assms(2) that
    by (auto simp: promiseRoom_def split: if_splits)
  show "purse_ok q \<and> i64 (pAvailable q) = Inr (pAvailable p - d) \<and> pRoom q = pRoom p" if "promiseBalance d p = Some q"
    using purse_updates_ok(3)[OF assms(1) that] available_ok[of q] assms(2) that
    by (auto simp: promiseBalance_def split: if_splits)
qed

text \<open>An update of an entry implements an update of its purse.\<close>

definition implements :: "LedgerHeader \<Rightarrow> LedgerEntry \<Rightarrow> tx_error + bool \<times> LedgerEntry \<Rightarrow> Purse option \<Rightarrow> bool" where
  "implements h le r p' \<longleftrightarrow>
     (\<exists>b le'. r = Inr (b, le') \<and> LedgerEntryKey le' = LedgerEntryKey le \<and> (b \<longleftrightarrow> p' \<noteq> None) \<and>
        (case p' of None \<Rightarrow> le' = le | Some p' \<Rightarrow> purse h le' = Some p'))"

lemma addBalanceTo_implements:
  assumes "10 \<le> ledgerVersion h" "purse h le = Some p" "purse_ok p"
  shows "implements h le (addBalanceTo h d le) (pay d p)"
proof -
  have v: "\<not> ledgerVersion h < 10" using assms(1) by simp
  have add: "addBalance (pBalance p) d (pLimit p) =
      Inr (if 0 \<le> pBalance p + d \<and> pBalance p + d \<le> pLimit p then Some (pBalance p + d) else None)"
    using assms(3) by (intro addBalance_exact) (simp_all add: purse_ok_def)
  have i: "i64 (pLimit p - pBuying p) = Inr (pLimit p - pBuying p)"
    "0 \<le> pBalance p + d \<Longrightarrow> d < 0 \<Longrightarrow> i64 (pBalance p + d - pReserve p) = Inr (pBalance p + d - pReserve p)"
    using assms(3) by (simp_all add: purse_ok_def i64_in)
  from assms(2) show ?thesis
  proof (cases rule: purse_cases)
    case (account acc)
    then show ?thesis using assms v add i
      by (auto simp: implements_def pay_def purse_def purse_ok_def addBalanceTo_def getSellingLiabilities_def getBuyingLiabilities_def LedgerEntryKey_def)
  next
    case (trust t)
    then show ?thesis using assms v add i checkAuthorization_iff[OF assms(1) trust(1)]
      by (auto simp: implements_def pay_def purse_def purse_ok_def addBalanceTo_def getSellingLiabilities_def getBuyingLiabilities_def LedgerEntryKey_def)
  qed
qed

lemma addBuyingLiabilities_implements:
  assumes "10 \<le> ledgerVersion h" "purse h le = Some p" "purse_ok p"
  shows "implements h le (addBuyingLiabilities h d le) (promiseRoom d p)"
proof -
  have v: "\<not> ledgerVersion h < 10" using assms(1) by simp
  have add: "addBalance (pBuying p) d (pLimit p - pBalance p) =
      Inr (if 0 \<le> pBuying p + d \<and> pBuying p + d \<le> pLimit p - pBalance p then Some (pBuying p + d) else None)"
    using assms(3) by (intro addBalance_exact) (simp_all add: purse_ok_def)
  have i: "i64 (pLimit p - pBalance p) = Inr (pLimit p - pBalance p)"
    using assms(3) by (simp add: purse_ok_def i64_in)
  from assms(2) show ?thesis
  proof (cases rule: purse_cases)
    case (account acc)
    then show ?thesis using assms v add i
      by (auto simp: implements_def promiseRoom_def purse_def addBuyingLiabilities_def getBuyingLiabilities_def LedgerEntryKey_def)
  next
    case (trust t)
    then show ?thesis using assms v add i checkAuthorization_iff[OF assms(1) trust(1)]
      by (auto simp: implements_def promiseRoom_def purse_def addBuyingLiabilities_def getBuyingLiabilities_def LedgerEntryKey_def)
  qed
qed

lemma addSellingLiabilities_implements:
  assumes "10 \<le> ledgerVersion h" "purse h le = Some p" "purse_ok p"
  shows "implements h le (addSellingLiabilities h d le) (promiseBalance d p)"
proof -
  have v: "\<not> ledgerVersion h < 10" using assms(1) by simp
  have add: "addBalance (pSelling p) d (pBalance p - pReserve p) = Inr (if 0 \<le> pSelling p + d \<and> d \<le> pAvailable p then Some (pSelling p + d) else None)"
    if "0 \<le> pBalance p - pReserve p" "d \<noteq> 0"
    using assms(3) that by (auto simp: purse_ok_def addBalance_def)
  have i: "i64 (pBalance p - pReserve p) = Inr (pBalance p - pReserve p)"
    using assms(3) by (simp add: purse_ok_def i64_in)
  from assms(2) show ?thesis
  proof (cases rule: purse_cases)
    case (account acc)
    then show ?thesis using assms v add i
      by (auto simp: implements_def promiseBalance_def purse_def addSellingLiabilities_def getSellingLiabilities_def LedgerEntryKey_def)
  next
    case (trust t)
    have "0 \<le> pBalance p" using assms(3) by (simp add: purse_ok_def)
    then show ?thesis using trust assms v add i checkAuthorization_iff[OF assms(1) trust(1)]
      by (auto simp: implements_def promiseBalance_def purse_def addSellingLiabilities_def getSellingLiabilities_def LedgerEntryKey_def)
  qed
qed

lemma implements_updated:
  assumes "10 \<le> ledgerVersion h" "purse h le = Some p" "purse_ok p" "implements h le r p'"
    and "\<And>q. p' = Some q \<Longrightarrow> purse_ok q \<and> i64 (pAvailable q) = Inr avail \<and> pRoom q = room"
  shows "updated h le (p' \<noteq> None) avail room r"
proof -
  obtain b le' where r: "r = Inr (b, le')" "LedgerEntryKey le' = LedgerEntryKey le" "b \<longleftrightarrow> p' \<noteq> None"
    "case p' of None \<Rightarrow> le' = le | Some p' \<Rightarrow> purse h le' = Some p'" using assms(4) unfolding implements_def by blast
  show ?thesis
  proof (cases p')
    case None
    then show ?thesis using r assms(3) entry_ok_purse[OF assms(2)] by (simp add: updated_def)
  next
    case (Some q)
    then have q: "purse h le' = Some q" "purse_ok q" "i64 (pAvailable q) = Inr avail" "pRoom q = room" using r(4) assms(5) by auto
    then show ?thesis using r(1-3) Some entry_ok_purse[OF q(1)] purse_amounts[OF assms(1) q(1,2)] by (simp add: updated_def)
  qed
qed

text \<open>
  Property C38. On an entry in order, \<^verbatim>\<open>addBalance\<close>, \<^verbatim>\<open>addBuyingLiabilities\<close> and \<^verbatim>\<open>addSellingLiabilities\<close> never
  throw or overflow, and succeed exactly when they should: a payment when it is covered by the available balance
  or by the amount that can be received, an increase of the liabilities when it is covered by the amount that can
  be received or sent, and no decrease below zero. A success changes the amounts that can be sent and received
  by exactly the given amount and keeps the entry in order; a refusal changes nothing.
\<close>

theorem balance_updates_exact:
  assumes "10 \<le> ledgerVersion h" "entry_ok le"
    and "getAvailableBalance h le = Inr avail" "getMaxAmountReceive h le = Inr room"
    and "getBuyingLiabilities h le = Inr b" "getSellingLiabilities h le = Inr s"
  shows "updated h le (d = 0 \<or> d < 0 \<and> - d \<le> avail \<or> 0 < d \<and> d \<le> room) (avail + d) (room - d) (addBalanceTo h d le) \<and>
    updated h le (d = 0 \<or> 0 \<le> b + d \<and> d \<le> room) avail (room - d) (addBuyingLiabilities h d le) \<and>
    updated h le (d = 0 \<or> 0 \<le> s + d \<and> d \<le> avail) (avail - d) room (addSellingLiabilities h d le)"
proof -
  obtain p where p: "purse h le = Some p" "purse_ok p" and avail: "avail = pAvailable p" "- INT64_MAX - 1 \<le> avail"
    by (rule available_purse[OF assms(1-3)])
  have room: "room = pRoom p" using assms(4) purse_amounts(2)[OF assms(1) p] by simp
  have liab: "b = pBuying p" "s = pSelling p"
    using assms(1,5,6) by (rule_tac [!] purse_cases[OF p(1)]) (auto simp: getBuyingLiabilities_def getSellingLiabilities_def split: if_splits)
  have low: "- INT64_MAX - 1 \<le> pAvailable p" using avail by simp
  note upd = implements_updated[OF assms(1) p]
  have "updated h le (pay d p \<noteq> None) (avail + d) (room - d) (addBalanceTo h d le)"
    unfolding room avail(1) by (rule upd[OF addBalanceTo_implements[OF assms(1) p] purse_updates_amounts(1)[OF p(2) low]])
  moreover have "updated h le (promiseRoom d p \<noteq> None) avail (room - d) (addBuyingLiabilities h d le)"
    unfolding room avail(1) by (rule upd[OF addBuyingLiabilities_implements[OF assms(1) p] purse_updates_amounts(2)[OF p(2) low]])
  moreover have "updated h le (promiseBalance d p \<noteq> None) (avail - d) room (addSellingLiabilities h d le)"
    unfolding room avail(1) by (rule upd[OF addSellingLiabilities_implements[OF assms(1) p] purse_updates_amounts(3)[OF p(2) low]])
  moreover have "pay d p \<noteq> None \<longleftrightarrow> d = 0 \<or> d < 0 \<and> - d \<le> avail \<or> 0 < d \<and> d \<le> room" by (simp add: pay_def avail(1) room)
  moreover have "promiseRoom d p \<noteq> None \<longleftrightarrow> d = 0 \<or> 0 \<le> b + d \<and> d \<le> room" by (simp add: promiseRoom_def liab room)
  moreover have "promiseBalance d p \<noteq> None \<longleftrightarrow> d = 0 \<or> 0 \<le> s + d \<and> d \<le> avail" by (simp add: promiseBalance_def liab avail(1))
  ultimately show ?thesis by simp
qed

text \<open>A ledger header, and a trust line that holds 70 of at most 100 and promises 20.\<close>

definition header14 :: LedgerHeader where
  "header14 = \<lparr>ledgerVersion = 14, ledgerSeq = 1, totalCoins = 0, feePool = 0, inflationSeq = 0, idPool = 0,
     baseFee = 100, baseReserve = 5, maxTxSetSize = 100\<rparr>"

definition someTrust :: LedgerEntry where
  "someTrust = \<lparr>lastModifiedLedgerSeq = 1,
     entryData = TRUSTLINE \<lparr>tlAccountID = 1, tlAsset = ASSET_TYPE_CREDIT_ALPHANUM4 [65] 9, tlBalance = 70, tlLimit = 100, tlFlags = 1,
       tlExt = TrustLineExt1 \<lparr>liabBuying = 10, liabSelling = 20\<rparr>\<rparr>,
     entryExt = LedgerEntryExt0\<rparr>"

theorem balance_updates_exact_witness:
  "updated header14 someTrust True 0 70 (addBalanceTo header14 (-50) someTrust) \<and>
   updated header14 someTrust False (- 1) 71 (addBalanceTo header14 (-51) someTrust)"
proof -
  have facts: "10 \<le> ledgerVersion header14" "entry_ok someTrust" "getAvailableBalance header14 someTrust = Inr 50"
    "getMaxAmountReceive header14 someTrust = Inr 20" "getBuyingLiabilities header14 someTrust = Inr 10"
    "getSellingLiabilities header14 someTrust = Inr 20"
    by code_simp+
  from balance_updates_exact[OF facts, of "-50"] balance_updates_exact[OF facts, of "-51"] show ?thesis
    by simp
qed

end
