(* ===== verification/TrustLines.thy ===== *)
theory TrustLines
  imports LedgerEntries
begin

text \<open>
  Trust lines of issuers and others behind one interface (\<^verbatim>\<open>src/ledger/TrustLineWrapper.cpp\<close>), and the
  liabilities of offers on the ledger (\<^verbatim>\<open>acquireOrReleaseLiabilities\<close> of \<^verbatim>\<open>TransactionUtils.cpp\<close>).
\<close>

section \<open>Keys and loading\<close>

definition accountKey :: "AccountID \<Rightarrow> LedgerKey" where
  "accountKey a = KeyAccount a"

definition trustlineKey :: "AccountID \<Rightarrow> Asset \<Rightarrow> LedgerKey" where
  "trustlineKey a asset = KeyTrustLine a asset"

definition loadAccount :: "Ledger \<Rightarrow> AccountID \<Rightarrow> LedgerEntry option" where
  "loadAccount ltx a = ltx (accountKey a)"

text \<open>What is changed through the handle of a loaded entry.\<close>

definition store :: "LedgerEntry \<Rightarrow> Ledger \<Rightarrow> Ledger" where
  "store le ltx = ltx(LedgerEntryKey le \<mapsto> le)"

section \<open>TrustLineWrapper\<close>

datatype TrustLineImpl = NonIssuerImpl LedgerEntry | IssuerImpl AccountID Asset

type_synonym TrustLineWrapper = "TrustLineImpl option"

definition loadTrustLine :: "Ledger \<Rightarrow> AccountID \<Rightarrow> Asset \<Rightarrow> tx_error + TrustLineWrapper" where
  "loadTrustLine ltx a asset =
     (if asset = ASSET_TYPE_NATIVE then Inl (RuntimeError ''trustline for native asset'')
      else
        sbind (getIssuer asset) (\<lambda>issuer.
        Inr (if issuer \<noteq> a then map_option NonIssuerImpl (ltx (KeyTrustLine a asset)) else Some (IssuerImpl a asset))))"

definition loadTrustLineIfNotNative :: "Ledger \<Rightarrow> AccountID \<Rightarrow> Asset \<Rightarrow> tx_error + TrustLineWrapper" where
  "loadTrustLineIfNotNative ltx a asset = (if asset = ASSET_TYPE_NATIVE then Inr None else loadTrustLine ltx a asset)"

definition getImpl :: "TrustLineWrapper \<Rightarrow> tx_error + TrustLineImpl" where
  "getImpl w = (case w of None \<Rightarrow> Inl (RuntimeError ''TrustLineWrapper not active'') | Some impl \<Rightarrow> Inr impl)"

definition wrapperAccountID :: "TrustLineWrapper \<Rightarrow> tx_error + AccountID" where
  "wrapperAccountID w =
     sbind (getImpl w) (\<lambda>impl. case impl of
       NonIssuerImpl le \<Rightarrow> sbind (trustLine le) (\<lambda>trust. Inr (tlAccountID trust))
     | IssuerImpl a _ \<Rightarrow> Inr a)"

definition wrapperAsset :: "TrustLineWrapper \<Rightarrow> tx_error + Asset" where
  "wrapperAsset w =
     sbind (getImpl w) (\<lambda>impl. case impl of
       NonIssuerImpl le \<Rightarrow> sbind (trustLine le) (\<lambda>trust. Inr (tlAsset trust))
     | IssuerImpl _ asset \<Rightarrow> Inr asset)"

definition wrapperBalance :: "TrustLineWrapper \<Rightarrow> tx_error + int" where
  "wrapperBalance w =
     sbind (getImpl w) (\<lambda>impl. case impl of
       NonIssuerImpl le \<Rightarrow> sbind (trustLine le) (\<lambda>trust. Inr (tlBalance trust))
     | IssuerImpl _ _ \<Rightarrow> Inr INT64_MAX)"

definition wrapperBuyingLiabilities :: "LedgerHeader \<Rightarrow> TrustLineWrapper \<Rightarrow> tx_error + int" where
  "wrapperBuyingLiabilities header w =
     sbind (getImpl w) (\<lambda>impl. case impl of
       NonIssuerImpl le \<Rightarrow> getBuyingLiabilities header le
     | IssuerImpl _ _ \<Rightarrow> Inr 0)"

definition wrapperSellingLiabilities :: "LedgerHeader \<Rightarrow> TrustLineWrapper \<Rightarrow> tx_error + int" where
  "wrapperSellingLiabilities header w =
     sbind (getImpl w) (\<lambda>impl. case impl of
       NonIssuerImpl le \<Rightarrow> getSellingLiabilities header le
     | IssuerImpl _ _ \<Rightarrow> Inr 0)"

definition wrapperIsAuthorized :: "TrustLineWrapper \<Rightarrow> tx_error + bool" where
  "wrapperIsAuthorized w =
     sbind (getImpl w) (\<lambda>impl. case impl of
       NonIssuerImpl le \<Rightarrow> isAuthorized le
     | IssuerImpl _ _ \<Rightarrow> Inr True)"

definition wrapperIsAuthorizedToMaintainLiabilities :: "TrustLineWrapper \<Rightarrow> tx_error + bool" where
  "wrapperIsAuthorizedToMaintainLiabilities w =
     sbind (getImpl w) (\<lambda>impl. case impl of
       NonIssuerImpl le \<Rightarrow> isAuthorizedToMaintainLiabilities le
     | IssuerImpl _ _ \<Rightarrow> Inr True)"

definition wrapperAvailableBalance :: "LedgerHeader \<Rightarrow> TrustLineWrapper \<Rightarrow> tx_error + int" where
  "wrapperAvailableBalance header w =
     sbind (getImpl w) (\<lambda>impl. case impl of
       NonIssuerImpl le \<Rightarrow> getAvailableBalance header le
     | IssuerImpl _ _ \<Rightarrow> Inr INT64_MAX)"

definition wrapperMaxAmountReceive :: "LedgerHeader \<Rightarrow> TrustLineWrapper \<Rightarrow> tx_error + int" where
  "wrapperMaxAmountReceive header w =
     sbind (getImpl w) (\<lambda>impl. case impl of
       NonIssuerImpl le \<Rightarrow> getMaxAmountReceive header le
     | IssuerImpl _ _ \<Rightarrow> Inr INT64_MAX)"

text \<open>
  The operations that change the entry. The handle inside the wrapper is the entry in the ledger, so a
  change is stored there.
\<close>

definition wrapperUpdate :: "(LedgerEntry \<Rightarrow> tx_error + bool \<times> LedgerEntry) \<Rightarrow> TrustLineWrapper \<Rightarrow> Ledger \<Rightarrow> tx_error + bool \<times> Ledger" where
  "wrapperUpdate f w ltx =
     sbind (getImpl w) (\<lambda>impl. case impl of
       NonIssuerImpl le \<Rightarrow> sbind (f le) (\<lambda>(res, le'). Inr (res, store le' ltx))
     | IssuerImpl _ _ \<Rightarrow> Inr (True, ltx))"

definition wrapperAddBalance :: "LedgerHeader \<Rightarrow> int \<Rightarrow> TrustLineWrapper \<Rightarrow> Ledger \<Rightarrow> tx_error + bool \<times> Ledger" where
  "wrapperAddBalance header delta = wrapperUpdate (addBalanceTo header delta)"

definition wrapperAddBuyingLiabilities :: "LedgerHeader \<Rightarrow> int \<Rightarrow> TrustLineWrapper \<Rightarrow> Ledger \<Rightarrow> tx_error + bool \<times> Ledger" where
  "wrapperAddBuyingLiabilities header delta = wrapperUpdate (addBuyingLiabilities header delta)"

definition wrapperAddSellingLiabilities :: "LedgerHeader \<Rightarrow> int \<Rightarrow> TrustLineWrapper \<Rightarrow> Ledger \<Rightarrow> tx_error + bool \<times> Ledger" where
  "wrapperAddSellingLiabilities header delta = wrapperUpdate (addSellingLiabilities header delta)"

section \<open>Liabilities of offers\<close>

definition getOfferBuyingLiabilities :: "LedgerHeader \<Rightarrow> OfferEntry \<Rightarrow> tx_error + int" where
  "getOfferBuyingLiabilities header oe =
     (if ledgerVersion header < 10 then Inl (RuntimeError ''Offer liabilities calculated before version 10'')
      else
        sbind (exchangeV10WithoutPriceErrorThresholds (offerPrice oe) (offerAmount oe)
                 INT64_MAX INT64_MAX INT64_MAX NORMAL) (\<lambda>res. Inr (numSheepSend res)))"

definition getOfferSellingLiabilities :: "LedgerHeader \<Rightarrow> OfferEntry \<Rightarrow> tx_error + int" where
  "getOfferSellingLiabilities header oe =
     (if ledgerVersion header < 10 then Inl (RuntimeError ''Offer liabilities calculated before version 10'')
      else
        sbind (exchangeV10WithoutPriceErrorThresholds (offerPrice oe) (offerAmount oe)
                 INT64_MAX INT64_MAX INT64_MAX NORMAL) (\<lambda>res. Inr (numWheatReceived res)))"

definition loadAccountAndValidate :: "Ledger \<Rightarrow> AccountID \<Rightarrow> tx_error + LedgerEntry" where
  "loadAccountAndValidate ltx a =
     (case loadAccount ltx a of
        None \<Rightarrow> Inl (RuntimeError ''account does not exist'')
      | Some le \<Rightarrow> Inr le)"

definition loadTrustAndValidate :: "Ledger \<Rightarrow> AccountID \<Rightarrow> Asset \<Rightarrow> tx_error + TrustLineWrapper" where
  "loadTrustAndValidate ltx a asset =
     sbind (loadTrustLine ltx a asset) (\<lambda>w.
     if w = None then Inl (RuntimeError ''trustline does not exist'') else Inr w)"

text \<open>The liabilities of one side of an offer: added to the account or to the trust line of the seller.\<close>

definition updateSide ::
  "(LedgerEntry \<Rightarrow> tx_error + bool \<times> LedgerEntry) \<Rightarrow> string \<Rightarrow> AccountID \<Rightarrow> Asset \<Rightarrow> Ledger \<Rightarrow> tx_error + Ledger"
where
  "updateSide f failure a asset ltx =
     sbind
       (if asset = ASSET_TYPE_NATIVE then
          sbind (loadAccountAndValidate ltx a) (\<lambda>le.
          sbind (f le) (\<lambda>(res, le'). Inr (res, store le' ltx)))
        else
          sbind (loadTrustAndValidate ltx a asset) (\<lambda>w. wrapperUpdate f w ltx))
       (\<lambda>(res, ltx'). if res then Inr ltx' else Inl (RuntimeError failure))"

definition acquireOrReleaseLiabilities :: "LedgerHeader \<Rightarrow> bool \<Rightarrow> OfferEntry \<Rightarrow> Ledger \<Rightarrow> tx_error + Ledger" where
  "acquireOrReleaseLiabilities header isAcquire offer ltx =
     (if offerBuying offer = offerSelling offer then Inl (RuntimeError ''buying and selling same asset'')
      else
        sbind (getOfferBuyingLiabilities header offer) (\<lambda>b.
        sbind (if isAcquire then Inr b else i64 (- b)) (\<lambda>buyingLiabilities.
        sbind (updateSide (addBuyingLiabilities header buyingLiabilities) ''could not add buying liabilities''
                 (sellerID offer) (offerBuying offer) ltx) (\<lambda>ltx.
        sbind (getOfferSellingLiabilities header offer) (\<lambda>s.
        sbind (if isAcquire then Inr s else i64 (- s)) (\<lambda>sellingLiabilities.
        updateSide (addSellingLiabilities header sellingLiabilities) ''could not add selling liabilities''
          (sellerID offer) (offerSelling offer) ltx))))))"

definition acquireLiabilities :: "LedgerHeader \<Rightarrow> OfferEntry \<Rightarrow> Ledger \<Rightarrow> tx_error + Ledger" where
  "acquireLiabilities header = acquireOrReleaseLiabilities header True"

definition releaseLiabilities :: "LedgerHeader \<Rightarrow> OfferEntry \<Rightarrow> Ledger \<Rightarrow> tx_error + Ledger" where
  "releaseLiabilities header = acquireOrReleaseLiabilities header False"

section \<open>Acquiring and releasing\<close>

definition ledger_ok :: "Ledger \<Rightarrow> bool" where
  "ledger_ok ltx \<longleftrightarrow> (\<forall>k le. ltx k = Some le \<longrightarrow> LedgerEntryKey le = k \<and> entry_ok le)"

text \<open>The entry with liabilities written out where they are absent, that is zero.\<close>

definition prepared :: "LedgerEntry \<Rightarrow> LedgerEntry" where
  "prepared le =
     (case entryData le of
        ACCOUNT acc \<Rightarrow> le\<lparr>entryData := ACCOUNT (snd (prepareAccountEntryExtensionV1 acc))\<rparr>
      | TRUSTLINE t \<Rightarrow> le\<lparr>entryData := TRUSTLINE (snd (prepareTrustLineEntryExtensionV1 t))\<rparr>
      | _ \<Rightarrow> le)"

lemma prepared_account:
  assumes "f (g (accountLiabilities a)) = accountLiabilities a"
  shows "snd (prepareAccountEntryExtensionV1 (setAccountLiabilities f (setAccountLiabilities g a))) = snd (prepareAccountEntryExtensionV1 a)"
  using assms by (auto simp: setAccountLiabilities_def prepareAccountEntryExtensionV1_def accountLiabilities_def Let_def split: AccountExt.splits)

lemma prepared_trust:
  assumes "f (g (trustLineLiabilities t)) = trustLineLiabilities t"
  shows "snd (prepareTrustLineEntryExtensionV1 (setTrustLineLiabilities f (setTrustLineLiabilities g t))) = snd (prepareTrustLineEntryExtensionV1 t)"
  using assms by (auto simp: setTrustLineLiabilities_def prepareTrustLineEntryExtensionV1_def trustLineLiabilities_def Let_def split: TrustLineExt.splits)

text \<open>The addition that the updates of liabilities rest on can be undone.\<close>

lemma addBalance_back:
  assumes "0 \<le> b" "addBalance b d m = Inr (Some c)" "0 < d"
  shows "c = b + d" "addBalance c (- d) m = Inr (Some b)"
  using assms by (auto simp: addBalance_def split: if_splits)

text \<open>A successful increase can be undone.\<close>

definition undone :: "(int \<Rightarrow> LedgerEntry \<Rightarrow> tx_error + bool \<times> LedgerEntry) \<Rightarrow> bool" where
  "undone f \<longleftrightarrow> (\<forall>d le le'. 0 \<le> d \<longrightarrow> entry_ok le \<longrightarrow> f d le = Inr (True, le') \<longrightarrow>
     LedgerEntryKey le' = LedgerEntryKey le \<and>
     (\<exists>le''. f (- d) le' = Inr (True, le'') \<and> LedgerEntryKey le'' = LedgerEntryKey le \<and> prepared le'' = prepared le))"

lemma undoneI:
  assumes "10 \<le> ledgerVersion h"
    and "\<And>le. f 0 le = sbind (get le) (\<lambda>_. Inr (True, le))"
    and "\<And>d le a le'. 0 < d \<Longrightarrow> entryData le = ACCOUNT a \<Longrightarrow> entry_ok le \<Longrightarrow> f d le = Inr (True, le') \<Longrightarrow>
      \<exists>g g'. f (- d) le' = Inr (True, le'\<lparr>entryData := ACCOUNT (setAccountLiabilities g' (setAccountLiabilities g a))\<rparr>) \<and>
        le' = le\<lparr>entryData := ACCOUNT (setAccountLiabilities g a)\<rparr> \<and> g' (g (accountLiabilities a)) = accountLiabilities a"
    and "\<And>d le t le'. 0 < d \<Longrightarrow> entryData le = TRUSTLINE t \<Longrightarrow> entry_ok le \<Longrightarrow> f d le = Inr (True, le') \<Longrightarrow>
      \<exists>g g'. f (- d) le' = Inr (True, le'\<lparr>entryData := TRUSTLINE (setTrustLineLiabilities g' (setTrustLineLiabilities g t))\<rparr>) \<and>
        le' = le\<lparr>entryData := TRUSTLINE (setTrustLineLiabilities g t)\<rparr> \<and> g' (g (trustLineLiabilities t)) = trustLineLiabilities t"
    and "\<And>d le le'. f d le = Inr (True, le') \<Longrightarrow> \<exists>a t. entryData le = ACCOUNT a \<or> entryData le = TRUSTLINE t"
  shows "undone f"
  unfolding undone_def
proof (intro allI impI)
  fix d le le'
  assume d: "0 \<le> d" and ok: "entry_ok le" and upd: "f d le = Inr (True, le')"
  show "LedgerEntryKey le' = LedgerEntryKey le \<and>
    (\<exists>le''. f (- d) le' = Inr (True, le'') \<and> LedgerEntryKey le'' = LedgerEntryKey le \<and> prepared le'' = prepared le)"
  proof (cases "d = 0")
    case True
    then show ?thesis using upd assms(2)[of le] by (cases "get le") auto
  next
    case False
    then have pos: "0 < d" using d by simp
    consider a where "entryData le = ACCOUNT a" | t where "entryData le = TRUSTLINE t" using assms(5)[OF upd] by blast
    then show ?thesis
    proof cases
      case 1
      from assms(3)[OF pos 1 ok upd] show ?thesis
        using 1 prepared_account by (auto simp: LedgerEntryKey_def prepared_def)
    next
      case 2
      from assms(4)[OF pos 2 ok upd] show ?thesis
        using 2 prepared_trust by (auto simp: LedgerEntryKey_def prepared_def)
    qed
  qed
qed

lemma addBuyingLiabilities_undone:
  assumes v: "10 \<le> ledgerVersion h"
  shows "undone (addBuyingLiabilities h)"
proof (rule undoneI[OF v, where get = "getBuyingLiabilities h"])
  show "addBuyingLiabilities h 0 le = sbind (getBuyingLiabilities h le) (\<lambda>_. Inr (True, le))" for le
    by (simp add: addBuyingLiabilities_def)
  show "\<exists>a t. entryData le = ACCOUNT a \<or> entryData le = TRUSTLINE t" if "addBuyingLiabilities h d le = Inr (True, le')" for d le le'
    using that leD[OF v] by (cases "entryData le") (auto simp: addBuyingLiabilities_def getBuyingLiabilities_def)
next
  fix d le a le'
  assume le: "0 < d" "entryData le = ACCOUNT a" "entry_ok le" and upd: "addBuyingLiabilities h d le = Inr (True, le')"
  have am: "amounts_ok (accountLiabilities a) (accBalance a) INT64_MAX" using le by (simp add: entry_ok_def)
  have i: "i64 (INT64_MAX - accBalance a) = Inr (INT64_MAX - accBalance a)" using am by (intro i64_in) (auto simp: amounts_ok_def)
  obtain c where c: "addBalance (liabBuying (accountLiabilities a)) d (INT64_MAX - accBalance a) = Inr (Some c)"
    "le' = le\<lparr>entryData := ACCOUNT (setAccountLiabilities (\<lambda>l. l\<lparr>liabBuying := c\<rparr>) a)\<rparr>"
    using upd le leD[OF v] i by (auto simp: addBuyingLiabilities_def getBuyingLiabilities_def sbind_def split: sum.splits option.splits)
  have "addBalance c (- d) (INT64_MAX - accBalance a) = Inr (Some (liabBuying (accountLiabilities a)))"
    by (rule addBalance_back(2)[OF _ c(1) le(1)]) (use am in \<open>auto simp: amounts_ok_def\<close>)
  then show "\<exists>g g'. addBuyingLiabilities h (- d) le' = Inr (True, le'\<lparr>entryData := ACCOUNT (setAccountLiabilities g' (setAccountLiabilities g a))\<rparr>) \<and>
        le' = le\<lparr>entryData := ACCOUNT (setAccountLiabilities g a)\<rparr> \<and> g' (g (accountLiabilities a)) = accountLiabilities a"
    using le leD[OF v] i c(2)
    by (intro exI[of _ "\<lambda>l. l\<lparr>liabBuying := c\<rparr>"] exI[of _ "\<lambda>l. l\<lparr>liabBuying := liabBuying (accountLiabilities a)\<rparr>"])
      (auto simp: addBuyingLiabilities_def getBuyingLiabilities_def)
next
  fix d le t le'
  assume le: "0 < d" "entryData le = TRUSTLINE t" "entry_ok le" and upd: "addBuyingLiabilities h d le = Inr (True, le')"
  have am: "amounts_ok (trustLineLiabilities t) (tlBalance t) (tlLimit t)" using le by (simp add: entry_ok_def)
  have i: "i64 (tlLimit t - tlBalance t) = Inr (tlLimit t - tlBalance t)" using am by (intro i64_in) (auto simp: amounts_ok_def)
  obtain c where c: "addBalance (liabBuying (trustLineLiabilities t)) d (tlLimit t - tlBalance t) = Inr (Some c)" "maintains (tlFlags t)"
    "le' = le\<lparr>entryData := TRUSTLINE (setTrustLineLiabilities (\<lambda>l. l\<lparr>liabBuying := c\<rparr>) t)\<rparr>"
    using upd le leD[OF v] i checkAuthorization_iff[OF v le(2)]
    by (auto simp: addBuyingLiabilities_def getBuyingLiabilities_def sbind_def split: sum.splits option.splits if_splits)
  have "addBalance c (- d) (tlLimit t - tlBalance t) = Inr (Some (liabBuying (trustLineLiabilities t)))"
    by (rule addBalance_back(2)[OF _ c(1) le(1)]) (use am in \<open>auto simp: amounts_ok_def\<close>)
  then show "\<exists>g g'. addBuyingLiabilities h (- d) le' = Inr (True, le'\<lparr>entryData := TRUSTLINE (setTrustLineLiabilities g' (setTrustLineLiabilities g t))\<rparr>) \<and>
        le' = le\<lparr>entryData := TRUSTLINE (setTrustLineLiabilities g t)\<rparr> \<and> g' (g (trustLineLiabilities t)) = trustLineLiabilities t"
    using le leD[OF v] i c(2,3) checkAuthorization_iff[OF v]
    by (intro exI[of _ "\<lambda>l. l\<lparr>liabBuying := c\<rparr>"] exI[of _ "\<lambda>l. l\<lparr>liabBuying := liabBuying (trustLineLiabilities t)\<rparr>"])
      (auto simp: addBuyingLiabilities_def getBuyingLiabilities_def)
qed

lemma addSellingLiabilities_undone:
  assumes v: "10 \<le> ledgerVersion h"
  shows "undone (addSellingLiabilities h)"
proof (rule undoneI[OF v, where get = "getSellingLiabilities h"])
  show "addSellingLiabilities h 0 le = sbind (getSellingLiabilities h le) (\<lambda>_. Inr (True, le))" for le
    by (simp add: addSellingLiabilities_def)
  show "\<exists>a t. entryData le = ACCOUNT a \<or> entryData le = TRUSTLINE t" if "addSellingLiabilities h d le = Inr (True, le')" for d le le'
    using that leD[OF v] by (cases "entryData le") (auto simp: addSellingLiabilities_def getSellingLiabilities_def)
next
  fix d le a le'
  assume le: "0 < d" "entryData le = ACCOUNT a" "entry_ok le" and upd: "addSellingLiabilities h d le = Inr (True, le')"
  have am: "amounts_ok (accountLiabilities a) (accBalance a) INT64_MAX" using le by (simp add: entry_ok_def)
  obtain m c where m: "getMinBalance h a = Inr m" "i64 (accBalance a - m) = Inr (accBalance a - m)" "0 \<le> accBalance a - m"
    and c: "addBalance (liabSelling (accountLiabilities a)) d (accBalance a - m) = Inr (Some c)"
    "le' = le\<lparr>entryData := ACCOUNT (setAccountLiabilities (\<lambda>l. l\<lparr>liabSelling := c\<rparr>) a)\<rparr>"
    using upd le leD[OF v] by (auto simp: addSellingLiabilities_def getSellingLiabilities_def sbind_def i64_def split: sum.splits option.splits if_splits)
  have "addBalance c (- d) (accBalance a - m) = Inr (Some (liabSelling (accountLiabilities a)))"
    by (rule addBalance_back(2)[OF _ c(1) le(1)]) (use am in \<open>auto simp: amounts_ok_def\<close>)
  then show "\<exists>g g'. addSellingLiabilities h (- d) le' = Inr (True, le'\<lparr>entryData := ACCOUNT (setAccountLiabilities g' (setAccountLiabilities g a))\<rparr>) \<and>
        le' = le\<lparr>entryData := ACCOUNT (setAccountLiabilities g a)\<rparr> \<and> g' (g (accountLiabilities a)) = accountLiabilities a"
    using le leD[OF v] m c(2)
    by (intro exI[of _ "\<lambda>l. l\<lparr>liabSelling := c\<rparr>"] exI[of _ "\<lambda>l. l\<lparr>liabSelling := liabSelling (accountLiabilities a)\<rparr>"])
      (auto simp: addSellingLiabilities_def getSellingLiabilities_def)
next
  fix d le t le'
  assume le: "0 < d" "entryData le = TRUSTLINE t" "entry_ok le" and upd: "addSellingLiabilities h d le = Inr (True, le')"
  have am: "amounts_ok (trustLineLiabilities t) (tlBalance t) (tlLimit t)" using le by (simp add: entry_ok_def)
  obtain c where c: "addBalance (liabSelling (trustLineLiabilities t)) d (tlBalance t) = Inr (Some c)" "maintains (tlFlags t)"
    "le' = le\<lparr>entryData := TRUSTLINE (setTrustLineLiabilities (\<lambda>l. l\<lparr>liabSelling := c\<rparr>) t)\<rparr>"
    using upd le leD[OF v] checkAuthorization_iff[OF v le(2)]
    by (auto simp: addSellingLiabilities_def getSellingLiabilities_def sbind_def split: sum.splits option.splits if_splits)
  have "addBalance c (- d) (tlBalance t) = Inr (Some (liabSelling (trustLineLiabilities t)))"
    by (rule addBalance_back(2)[OF _ c(1) le(1)]) (use am in \<open>auto simp: amounts_ok_def\<close>)
  then show "\<exists>g g'. addSellingLiabilities h (- d) le' = Inr (True, le'\<lparr>entryData := TRUSTLINE (setTrustLineLiabilities g' (setTrustLineLiabilities g t))\<rparr>) \<and>
        le' = le\<lparr>entryData := TRUSTLINE (setTrustLineLiabilities g t)\<rparr> \<and> g' (g (trustLineLiabilities t)) = trustLineLiabilities t"
    using le leD[OF v] c(2,3) checkAuthorization_iff[OF v]
    by (intro exI[of _ "\<lambda>l. l\<lparr>liabSelling := c\<rparr>"] exI[of _ "\<lambda>l. l\<lparr>liabSelling := liabSelling (trustLineLiabilities t)\<rparr>"])
      (auto simp: addSellingLiabilities_def getSellingLiabilities_def)
qed

text \<open>The entry that one side of an offer updates; the issuer of the asset has none.\<close>

definition sideKey :: "AccountID \<Rightarrow> Asset \<Rightarrow> LedgerKey option" where
  "sideKey a asset =
     (if asset = ASSET_TYPE_NATIVE then Some (KeyAccount a)
      else if getIssuer asset = Inr a then None else Some (KeyTrustLine a asset))"

lemma sideKey_inj: "sideKey a x = Some k \<Longrightarrow> sideKey a y = Some k \<Longrightarrow> x = y"
  by (auto simp: sideKey_def split: if_splits)

lemma updateSide_iff:
  "updateSide f msg a asset ltx = Inr ltx' \<longleftrightarrow>
     (case sideKey a asset of
        None \<Rightarrow> ltx' = ltx
      | Some k \<Rightarrow> \<exists>le le'. ltx k = Some le \<and> f le = Inr (True, le') \<and> ltx' = store le' ltx)"
  by (cases asset; cases "sideKey a asset")
    (auto simp: updateSide_def sideKey_def getIssuer_def loadAccountAndValidate_def loadAccount_def accountKey_def
      loadTrustAndValidate_def loadTrustLine_def wrapperUpdate_def getImpl_def sbind_def split: option.splits sum.splits if_splits)

lemma offerLiabilities_bounds:
  "getOfferBuyingLiabilities h offer = Inr b \<Longrightarrow> 0 \<le> b \<and> b \<le> INT64_MAX"
  "getOfferSellingLiabilities h offer = Inr b \<Longrightarrow> 0 \<le> b \<and> b \<le> INT64_MAX"
  unfolding getOfferBuyingLiabilities_def getOfferSellingLiabilities_def exchangeV10WithoutPriceErrorThresholds_def Let_def sbind_def
  by (auto split: if_splits sum.splits prod.splits)

text \<open>A side that was updated can be undone even after another side was updated.\<close>

lemma updateSide_undo:
  assumes "undone f" "0 \<le> d" "ledger_ok ltx" "updateSide (f d) msg a asset ltx = Inr ltx1"
    and "\<And>k. sideKey a asset = Some k \<Longrightarrow> ltx2 k = ltx1 k"
  obtains ltx3 where "updateSide (f (- d)) msg' a asset ltx2 = Inr ltx3"
    "\<And>k. sideKey a asset \<noteq> Some k \<Longrightarrow> ltx1 k = ltx k \<and> ltx3 k = ltx2 k"
    "\<And>k. sideKey a asset = Some k \<Longrightarrow> map_option prepared (ltx3 k) = map_option prepared (ltx k)"
proof (cases "sideKey a asset")
  case None
  then have "ltx1 = ltx" using assms(4) unfolding updateSide_iff by simp
  then show ?thesis using that[of ltx2] None unfolding updateSide_iff by simp
next
  case (Some k)
  then obtain le le1 where le: "ltx k = Some le" "f d le = Inr (True, le1)" "ltx1 = store le1 ltx"
    using assms(4) unfolding updateSide_iff by auto
  have ok: "entry_ok le" "LedgerEntryKey le = k" using assms(3) le(1) by (auto simp: ledger_ok_def)
  have u: "LedgerEntryKey le1 = k \<and> (\<exists>le2. f (- d) le1 = Inr (True, le2) \<and> LedgerEntryKey le2 = k \<and> prepared le2 = prepared le)"
    using assms(1)[unfolded undone_def, rule_format, OF assms(2) ok(1) le(2)] ok(2) by simp
  then obtain le2 where le2: "f (- d) le1 = Inr (True, le2)" "LedgerEntryKey le2 = k" "prepared le2 = prepared le" by blast
  have "ltx2 k = Some le1" using assms(5)[OF Some] u le(3) by (simp add: store_def)
  then have "updateSide (f (- d)) msg' a asset ltx2 = Inr (store le2 ltx2)" unfolding updateSide_iff using Some le2 by simp
  then show ?thesis by (rule that) (use Some le u le2 in \<open>auto simp: store_def\<close>)
qed

lemma updateSide_ok:
  assumes "ledger_ok ltx" "updateSide f msg a asset ltx = Inr ltx1"
    and "\<And>le le'. entry_ok le \<Longrightarrow> f le = Inr (True, le') \<Longrightarrow> entry_ok le' \<and> LedgerEntryKey le' = LedgerEntryKey le"
  shows "ledger_ok ltx1"
proof (cases "sideKey a asset")
  case (Some k)
  then obtain le le1 where le: "ltx k = Some le" "f le = Inr (True, le1)" "ltx1 = store le1 ltx"
    using assms(2) unfolding updateSide_iff by auto
  then have "entry_ok le1 \<and> LedgerEntryKey le1 = k" using assms(1,3) unfolding ledger_ok_def by blast
  then show ?thesis using assms(1) le(3) by (simp add: ledger_ok_def store_def)
qed (use assms in \<open>simp add: updateSide_iff\<close>)

lemma addBuying_entry_ok:
  assumes v: "10 \<le> ledgerVersion h" and le: "entry_ok le" "addBuyingLiabilities h d le = Inr (True, le')"
  shows "entry_ok le' \<and> LedgerEntryKey le' = LedgerEntryKey le"
  using le leD[OF v]
  by (auto simp: addBuyingLiabilities_def getBuyingLiabilities_def entry_ok_def amounts_ok_def addBalance_def i64_def LedgerEntryKey_def sbind_def
      split: LedgerEntryData.splits if_splits sum.splits option.splits)

lemma addSelling_entry_ok:
  assumes v: "10 \<le> ledgerVersion h" and le: "entry_ok le" "addSellingLiabilities h d le = Inr (True, le')"
  shows "entry_ok le' \<and> LedgerEntryKey le' = LedgerEntryKey le"
  using le leD[OF v]
  by (auto simp: addSellingLiabilities_def getSellingLiabilities_def entry_ok_def amounts_ok_def addBalance_def i64_def LedgerEntryKey_def sbind_def
      dest!: minBalance_bounds split: LedgerEntryData.splits if_splits sum.splits option.splits)

lemma updateSide_frame:
  assumes "undone f" "0 \<le> d" "ledger_ok ltx" "updateSide (f d) msg a asset ltx = Inr ltx1" "sideKey a asset \<noteq> Some k"
  shows "ltx1 k = ltx k"
  using updateSide_undo[OF assms(1-4), of ltx1 msg] assms(5) by blast

lemma acquire_cases:
  assumes "acquireLiabilities h offer ltx = Inr ltx'"
  obtains b s ltx1 where "offerBuying offer \<noteq> offerSelling offer"
    "getOfferBuyingLiabilities h offer = Inr b" "getOfferSellingLiabilities h offer = Inr s"
    "updateSide (addBuyingLiabilities h b) ''could not add buying liabilities'' (sellerID offer) (offerBuying offer) ltx = Inr ltx1"
    "updateSide (addSellingLiabilities h s) ''could not add selling liabilities'' (sellerID offer) (offerSelling offer) ltx1 = Inr ltx'"
  using assms unfolding acquireLiabilities_def acquireOrReleaseLiabilities_def sbind_def by (auto split: if_splits sum.splits)

text \<open>
  Property C39. Acquiring the liabilities of an offer keeps every entry of the ledger in order, and releasing
  them again succeeds and restores every entry, up to liabilities of zero being written out.
\<close>

theorem acquire_release:
  assumes v: "10 \<le> ledgerVersion h" and ok: "ledger_ok ltx" and acq: "acquireLiabilities h offer ltx = Inr ltx'"
  shows "ledger_ok ltx' \<and>
    (\<exists>ltx''. releaseLiabilities h offer ltx' = Inr ltx'' \<and> (\<forall>k. map_option prepared (ltx'' k) = map_option prepared (ltx k)))"
proof -
  obtain b s ltx1 where ne: "offerBuying offer \<noteq> offerSelling offer"
    and bs: "getOfferBuyingLiabilities h offer = Inr b" "getOfferSellingLiabilities h offer = Inr s"
    and buy: "updateSide (addBuyingLiabilities h b) ''could not add buying liabilities'' (sellerID offer) (offerBuying offer) ltx = Inr ltx1"
    and sell: "updateSide (addSellingLiabilities h s) ''could not add selling liabilities'' (sellerID offer) (offerSelling offer) ltx1 = Inr ltx'"
    by (rule acquire_cases[OF acq])
  have pos: "0 \<le> b" "0 \<le> s" "i64 (- b) = Inr (- b)" "i64 (- s) = Inr (- s)"
    using offerLiabilities_bounds(1)[OF bs(1)] offerLiabilities_bounds(2)[OF bs(2)] by (simp_all add: i64_in)
  have ok1: "ledger_ok ltx1" by (rule updateSide_ok[OF ok buy addBuying_entry_ok[OF v]])
  have ok2: "ledger_ok ltx'" by (rule updateSide_ok[OF ok1 sell addSelling_entry_ok[OF v]])
  let ?B = "sideKey (sellerID offer) (offerBuying offer)" and ?S = "sideKey (sellerID offer) (offerSelling offer)"
  have sides: "?S \<noteq> Some k" if "?B = Some k" for k using that ne sideKey_inj by blast
  note ub = addBuyingLiabilities_undone[OF v] and us = addSellingLiabilities_undone[OF v]
  have keep: "ltx' k = ltx1 k" if "?B = Some k" for k
    using updateSide_frame[OF us pos(2) ok1 sell sides[OF that]] .
  obtain ltx3 where 3: "updateSide (addBuyingLiabilities h (- b)) ''could not add buying liabilities'' (sellerID offer) (offerBuying offer) ltx' = Inr ltx3"
    "\<And>k. ?B \<noteq> Some k \<Longrightarrow> ltx1 k = ltx k \<and> ltx3 k = ltx' k"
    "\<And>k. ?B = Some k \<Longrightarrow> map_option prepared (ltx3 k) = map_option prepared (ltx k)"
    by (rule updateSide_undo[OF ub pos(1) ok buy keep, of "''could not add buying liabilities''"]) (assumption | rule that)+
  have keep': "ltx3 k = ltx' k" if "?S = Some k" for k using that sides 3(2) by blast
  obtain ltx4 where 4: "updateSide (addSellingLiabilities h (- s)) ''could not add selling liabilities'' (sellerID offer) (offerSelling offer) ltx3 = Inr ltx4"
    "\<And>k. ?S \<noteq> Some k \<Longrightarrow> ltx' k = ltx1 k \<and> ltx4 k = ltx3 k"
    "\<And>k. ?S = Some k \<Longrightarrow> map_option prepared (ltx4 k) = map_option prepared (ltx1 k)"
    by (rule updateSide_undo[OF us pos(2) ok1 sell keep', of "''could not add selling liabilities''"]) (assumption | rule that)+
  have "releaseLiabilities h offer ltx' = Inr ltx4"
    using ne by (simp add: releaseLiabilities_def acquireOrReleaseLiabilities_def bs pos 3(1) 4(1))
  moreover have "map_option prepared (ltx4 k) = map_option prepared (ltx k)" for k
    using 3(2,3)[of k] 4(2,3)[of k] sides[of k] by (cases "?S = Some k"; cases "?B = Some k") auto
  ultimately show ?thesis using ok2 by blast
qed

text \<open>An offer of 20 of the asset of \<^const>\<open>someTrust\<close> for the native asset, with the account of its owner.\<close>

definition someAccount :: LedgerEntry where
  "someAccount = \<lparr>lastModifiedLedgerSeq = 1,
     entryData = ACCOUNT \<lparr>accountID = 1, accBalance = 1000, seqNum = 1, numSubEntries = 2, inflationDest = None, accFlags = 0,
       homeDomain = [], thresholds = [1, 0, 0, 0], signers = [], accExt = AccountExt0\<rparr>,
     entryExt = LedgerEntryExt0\<rparr>"

definition someOffer :: OfferEntry where
  "someOffer = \<lparr>sellerID = 1, offerID = 1, offerSelling = ASSET_TYPE_CREDIT_ALPHANUM4 [65] 9, offerBuying = ASSET_TYPE_NATIVE,
     offerAmount = 20, offerPrice = \<lparr>price_n = 3, price_d = 2\<rparr>, offerFlags = 0\<rparr>"

definition someLedger :: Ledger where
  "someLedger = store someTrust (store someAccount Map.empty)"

theorem acquire_release_witness:
  "\<exists>ltx'. acquireLiabilities header14 someOffer someLedger = Inr ltx' \<and> ledger_ok ltx' \<and>
     (\<exists>ltx''. releaseLiabilities header14 someOffer ltx' = Inr ltx'')"
proof -
  have v: "10 \<le> ledgerVersion header14" by code_simp
  have "entry_ok someTrust" "entry_ok someAccount" by code_simp+
  then have ok: "ledger_ok someLedger" by (simp add: ledger_ok_def someLedger_def store_def)
  have "\<not> isl (acquireLiabilities header14 someOffer someLedger)" by code_simp
  then obtain ltx' where acq: "acquireLiabilities header14 someOffer someLedger = Inr ltx'"
    by (cases "acquireLiabilities header14 someOffer someLedger") simp_all
  from acquire_release[OF v ok acq] acq show ?thesis by blast
qed

end
