(* ===== verification/QuorumSet.thy ===== *)
theory QuorumSet
  imports Numeric
begin

text \<open>
  Quorum sets: \<^verbatim>\<open>SCPQuorumSet\<close> (\<^verbatim>\<open>DiamNet-SCP.x\<close>), the sanity check and the normalisation of
  \<^verbatim>\<open>src/scp/QuorumSetUtils.cpp\<close>, and the slice, blocking-set, quorum and weight computations of
  \<^verbatim>\<open>src/scp/LocalNode.cpp\<close>. Counters keep their C++ widths: the threshold is 32 bits, the
  counters of remaining entries are the 32-bit, the signed and the 64-bit ones of the source.
\<close>

section \<open>Quorum sets\<close>

datatype SCPQuorumSet =
  SCPQuorumSet (threshold: uint32) (validators: "node_id list") (innerSets: "SCPQuorumSet list")

definition buildSingletonQSet :: "node_id \<Rightarrow> SCPQuorumSet" where
  "buildSingletonQSet nodeID = SCPQuorumSet 1 [nodeID] []"

section \<open>Visiting the nodes\<close>

text \<open>The visitor returns whether to go on and the state it captured by reference.\<close>

fun forAllValidators :: "(node_id \<Rightarrow> 's \<Rightarrow> bool \<times> 's) \<Rightarrow> node_id list \<Rightarrow> 's \<Rightarrow> bool \<times> 's" where
  "forAllValidators proc [] s = (True, s)"
| "forAllValidators proc (n # ns) s =
     (let (ok, s') = proc n s in if \<not> ok then (False, s') else forAllValidators proc ns s')"

fun forAllNodes :: "SCPQuorumSet \<Rightarrow> (node_id \<Rightarrow> 's \<Rightarrow> bool \<times> 's) \<Rightarrow> 's \<Rightarrow> bool \<times> 's"
  and forAllInner :: "SCPQuorumSet list \<Rightarrow> (node_id \<Rightarrow> 's \<Rightarrow> bool \<times> 's) \<Rightarrow> 's \<Rightarrow> bool \<times> 's"
where
  "forAllNodes (SCPQuorumSet t vs qs) proc s =
     (let (ok, s') = forAllValidators proc vs s
      in if \<not> ok then (False, s') else forAllInner qs proc s')"
| "forAllInner [] proc s = (True, s)"
| "forAllInner (q # qs) proc s =
     (let (ok, s') = forAllNodes q proc s
      in if \<not> ok then (False, s') else forAllInner qs proc s')"

section \<open>Weights\<close>

definition computeWeight :: "uint64 \<Rightarrow> uint64 \<Rightarrow> uint64 \<Rightarrow> tx_error + uint64" where
  "computeWeight m tot thr =
     (if thr \<le> tot then Inr (fst (bigDivide_u64 m thr tot ROUND_UP)) else Inl AssertFailed)"

fun getNodeWeight :: "node_id \<Rightarrow> SCPQuorumSet \<Rightarrow> tx_error + uint64"
  and getInnerWeight :: "node_id \<Rightarrow> uint64 \<Rightarrow> uint64 \<Rightarrow> SCPQuorumSet list \<Rightarrow> tx_error + uint64"
where
  "getNodeWeight nodeID (SCPQuorumSet t vs qs) =
     (let n = ucast t :: uint64;
          d = of_nat (length qs + length vs) :: uint64
      in if nodeID \<in> set vs then computeWeight UINT64_MAX d n
         else getInnerWeight nodeID d n qs)"
| "getInnerWeight nodeID d n [] = Inr 0"
| "getInnerWeight nodeID d n (q # qs) =
     sbind (getNodeWeight nodeID q) (\<lambda>leafW.
     if leafW \<noteq> 0 then computeWeight leafW d n else getInnerWeight nodeID d n qs)"

section \<open>Slices and blocking sets\<close>

text \<open>
  The loop both predicates share: a counter goes down on every entry that satisfies \<open>P\<close>, and the
  loop returns true (\<^term>\<open>None\<close>) as soon as it is at most zero. Otherwise the counter that is
  left goes into the next loop.
\<close>

fun countDown :: "('a \<Rightarrow> bool) \<Rightarrow> 'l::{zero,one,minus,ord} \<Rightarrow> 'a list \<Rightarrow> 'l option" where
  "countDown P left [] = Some left"
| "countDown P left (x # xs) =
     (if P x then (let left = left - 1 in if left \<le> 0 then None else countDown P left xs)
      else countDown P left xs)"

lemma countDown_cong [fundef_cong]:
  "l = l' \<Longrightarrow> xs = ys \<Longrightarrow> (\<And>x. x \<in> set ys \<Longrightarrow> P x = Q x) \<Longrightarrow> countDown P l xs = countDown Q l' ys"
proof -
  assume "l = l'" "xs = ys" "\<And>x. x \<in> set ys \<Longrightarrow> P x = Q x"
  then show ?thesis by (induction ys arbitrary: xs l l') (auto simp: Let_def)
qed

fun isQuorumSliceInternal :: "SCPQuorumSet \<Rightarrow> node_id list \<Rightarrow> bool" where
  "isQuorumSliceInternal (SCPQuorumSet t vs qs) nodeSet =
     (case countDown (\<lambda>v. v \<in> set nodeSet) t vs of
        None \<Rightarrow> True
      | Some thresholdLeft \<Rightarrow>
          countDown (\<lambda>q. isQuorumSliceInternal q nodeSet) thresholdLeft qs = None)"

definition isQuorumSlice :: "SCPQuorumSet \<Rightarrow> node_id list \<Rightarrow> bool" where
  "isQuorumSlice qSet nodeSet = isQuorumSliceInternal qSet nodeSet"

fun isVBlockingInternal :: "SCPQuorumSet \<Rightarrow> node_id list \<Rightarrow> bool" where
  "isVBlockingInternal (SCPQuorumSet t vs qs) nodeSet =
     (if t = 0 then False
      else
        let leftTillBlock =
              sint (ucast (of_nat (1 + length vs + length qs) - ucast t :: uint64) :: uint32)
        in case countDown (\<lambda>v. v \<in> set nodeSet) leftTillBlock vs of
             None \<Rightarrow> True
           | Some left \<Rightarrow> countDown (\<lambda>q. isVBlockingInternal q nodeSet) left qs = None)"

definition isVBlocking :: "SCPQuorumSet \<Rightarrow> node_id list \<Rightarrow> bool" where
  "isVBlocking qSet nodeSet = isVBlockingInternal qSet nodeSet"

text \<open>The overload on the map of latest envelopes, with a filter on their statements.\<close>

definition filterNodes :: "(node_id \<times> 'e) list \<Rightarrow> ('e \<Rightarrow> bool) \<Rightarrow> node_id list" where
  "filterNodes m filt = map fst (filter (\<lambda>(n, e). filt e) m)"

definition isVBlockingFilter :: "SCPQuorumSet \<Rightarrow> (node_id \<times> 'e) list \<Rightarrow> ('e \<Rightarrow> bool) \<Rightarrow> bool" where
  "isVBlockingFilter qSet m filt = isVBlocking qSet (filterNodes m filt)"

section \<open>Quorums\<close>

text \<open>
  The do-while loop of \<^verbatim>\<open>isQuorum\<close>: drop the nodes whose own quorum set has no slice among the
  nodes that remain, until nothing changes. A node without a known quorum set is dropped.
\<close>

definition quorumFilter :: "(node_id \<Rightarrow> SCPQuorumSet option) \<Rightarrow> node_id list \<Rightarrow> node_id \<Rightarrow> bool" where
  "quorumFilter qset_of pNodes nodeID =
     (case qset_of nodeID of Some q \<Rightarrow> isQuorumSlice q pNodes | None \<Rightarrow> False)"

function quorumLoop :: "(node_id \<Rightarrow> SCPQuorumSet option) \<Rightarrow> node_id list \<Rightarrow> node_id list" where
  "quorumLoop qset_of pNodes =
     (let count = length pNodes;
          fNodes = filter (quorumFilter qset_of pNodes) pNodes
      in if count \<noteq> length fNodes then quorumLoop qset_of fNodes else fNodes)"
  by pat_completeness auto
termination
  by (relation "measure (\<lambda>(q, p). length p)") (auto simp: less_le)

declare quorumLoop.simps [simp del]

definition isQuorum ::
  "SCPQuorumSet \<Rightarrow> (node_id \<times> 'e) list \<Rightarrow> ('e \<Rightarrow> SCPQuorumSet option) \<Rightarrow> ('e \<Rightarrow> bool) \<Rightarrow> bool"
where
  "isQuorum qSet m qfun filt =
     isQuorumSlice qSet
       (quorumLoop (\<lambda>n. case omap_find m n of Some e \<Rightarrow> qfun e | None \<Rightarrow> None) (filterNodes m filt))"

section \<open>The closest blocking set\<close>

text \<open>\<^verbatim>\<open>std::multiset\<close> ordered by size: a vector goes after those of the same size.\<close>

fun emplaceBySize :: "'a list \<Rightarrow> 'a list list \<Rightarrow> 'a list list" where
  "emplaceBySize v [] = [v]"
| "emplaceBySize v (w # ws) = (if length v < length w then v # w # ws else w # emplaceBySize v ws)"

fun closestValidators ::
  "node_id option \<Rightarrow> node_id list \<Rightarrow> uint64 \<Rightarrow> node_id list \<Rightarrow> node_id list \<Rightarrow> (uint64 \<times> node_id list) option"
where
  "closestValidators excluded nodes left res [] = Some (left, res)"
| "closestValidators excluded nodes left res (v # vs) =
     (if excluded = None \<or> excluded \<noteq> Some v then
        (if v \<notin> set nodes then
           (let left = left - 1 in
            if left = 0 then None else closestValidators excluded nodes left res vs)
         else closestValidators excluded nodes left (res @ [v]) vs)
      else closestValidators excluded nodes left res vs)"

fun closestInner ::
  "(SCPQuorumSet \<Rightarrow> node_id list) \<Rightarrow> uint64 \<Rightarrow> node_id list list \<Rightarrow> SCPQuorumSet list
    \<Rightarrow> (uint64 \<times> node_id list list) option"
where
  "closestInner rec left resInternals [] = Some (left, resInternals)"
| "closestInner rec left resInternals (q # qs) =
     (let v = rec q in
      if length v = 0 then
        (let left = left - 1 in
         if left = 0 then None else closestInner rec left resInternals qs)
      else closestInner rec left (emplaceBySize v resInternals) qs)"

lemma closestInner_cong [fundef_cong]:
  "l = l' \<Longrightarrow> r = r' \<Longrightarrow> xs = ys \<Longrightarrow> (\<And>x. x \<in> set ys \<Longrightarrow> f x = g x) \<Longrightarrow>
     closestInner f l r xs = closestInner g l' r' ys"
proof -
  assume "l = l'" "r = r'" "xs = ys" "\<And>x. x \<in> set ys \<Longrightarrow> f x = g x"
  then show ?thesis
    by (induction ys arbitrary: xs l l' r r') (auto simp: Let_def)
qed

fun useSubsets :: "uint64 \<Rightarrow> node_id list \<Rightarrow> node_id list list \<Rightarrow> node_id list" where
  "useSubsets left res [] = res"
| "useSubsets left res (v # vs) =
     (if left \<noteq> 0 then useSubsets (left - 1) (res @ v) vs else res)"

fun findClosestVBlocking :: "node_id list \<Rightarrow> node_id option \<Rightarrow> SCPQuorumSet \<Rightarrow> node_id list" where
  "findClosestVBlocking nodes excluded (SCPQuorumSet t vs qs) =
     (let leftTillBlock = of_nat (1 + length vs + length qs) - ucast t :: uint64 in
      case closestValidators excluded nodes leftTillBlock [] vs of
        None \<Rightarrow> []
      | Some (left, res) \<Rightarrow>
          (case closestInner (findClosestVBlocking nodes excluded) left [] qs of
             None \<Rightarrow> []
           | Some (left, resInternals) \<Rightarrow>
               (let res = (if of_nat (length res) > left then take (unat left) res else res)
                in useSubsets (left - of_nat (length res)) res resInternals)))"

definition findClosestVBlockingFilter ::
  "SCPQuorumSet \<Rightarrow> (node_id \<times> 'e) list \<Rightarrow> ('e \<Rightarrow> bool) \<Rightarrow> node_id option \<Rightarrow> node_id list"
where
  "findClosestVBlockingFilter qset m filt excluded =
     findClosestVBlocking (fold set_insert (filterNodes m filt) []) excluded qset"

section \<open>Sanity\<close>

definition MAXIMUM_QUORUM_NESTING_LEVEL :: uint32 where
  "MAXIMUM_QUORUM_NESTING_LEVEL = 4"

text \<open>
  \<^verbatim>\<open>QuorumSetSanityChecker\<close>: the known nodes and the number of validators are its members, threaded
  through the recursion; \<^term>\<open>Inl\<close> is a false result with its error message.
\<close>

datatype sanity_error =
  NestingLevelExceeded
| ThresholdNotPositive
| ThresholdExceedsEntries
| ThresholdBelowVBlocking
| DuplicateNode

fun insertKnown :: "node_id list \<Rightarrow> node_id list \<Rightarrow> node_id list option" where
  "insertKnown known [] = Some known"
| "insertKnown known (n # ns) =
     (if n \<in> set known then None else insertKnown (set_insert n known) ns)"

fun checkSanity ::
  "bool \<Rightarrow> SCPQuorumSet \<Rightarrow> uint32 \<Rightarrow> node_id list \<times> nat \<Rightarrow> sanity_error + node_id list \<times> nat"
  and checkSanityInner ::
  "bool \<Rightarrow> SCPQuorumSet list \<Rightarrow> uint32 \<Rightarrow> node_id list \<times> nat \<Rightarrow> sanity_error + node_id list \<times> nat"
where
  "checkSanity extraChecks (SCPQuorumSet t v i) depth (known, count) =
     (if depth > MAXIMUM_QUORUM_NESTING_LEVEL then Inl NestingLevelExceeded
      else if t < 1 then Inl ThresholdNotPositive
      else
        let totEntries = length v + length i;
            vBlockingSize = totEntries - unat t + 1;
            count = count + length v
        in if unat t > totEntries then Inl ThresholdExceedsEntries
           else if extraChecks \<and> unat t < vBlockingSize then
             Inl ThresholdBelowVBlocking
           else
             (case insertKnown known v of
                None \<Rightarrow> Inl DuplicateNode
              | Some known \<Rightarrow> checkSanityInner extraChecks i (depth + 1) (known, count)))"
| "checkSanityInner extraChecks [] depth st = Inr st"
| "checkSanityInner extraChecks (q # qs) depth st =
     sbind (checkSanity extraChecks q depth st) (\<lambda>st'. checkSanityInner extraChecks qs depth st')"

definition isQuorumSetSane :: "SCPQuorumSet \<Rightarrow> bool \<Rightarrow> bool" where
  "isQuorumSetSane qSet extraChecks =
     (case checkSanity extraChecks qSet 0 ([], 0) of
        Inl _ \<Rightarrow> False
      | Inr (known, count) \<Rightarrow> \<not> (count < 1 \<or> count > 1000))"

section \<open>Normalisation\<close>

definition isSingleton :: "SCPQuorumSet \<Rightarrow> bool" where
  "isSingleton q \<longleftrightarrow> threshold q = 1 \<and> length (validators q) = 1 \<and> length (innerSets q) = 0"

text \<open>
  The loop over the inner sets, once each of them is simplified: singletons move to the end of the
  validators in order, the others stay.
\<close>

fun mergeSingletons :: "node_id list \<Rightarrow> SCPQuorumSet list \<Rightarrow> node_id list \<times> SCPQuorumSet list" where
  "mergeSingletons v [] = (v, [])"
| "mergeSingletons v (q # qs) =
     (if isSingleton q then mergeSingletons (v @ [hd (validators q)]) qs
      else let (v', qs') = mergeSingletons v qs in (v', q # qs'))"

definition removeValidator :: "node_id option \<Rightarrow> uint32 \<Rightarrow> node_id list \<Rightarrow> uint32 \<times> node_id list" where
  "removeValidator idToRemove t v =
     (case idToRemove of
        None \<Rightarrow> (t, v)
      | Some n \<Rightarrow>
          (let v' = filter (\<lambda>x. x \<noteq> n) v in (t - of_nat (length v - length v'), v')))"

fun normalizeQSetSimplify :: "node_id option \<Rightarrow> SCPQuorumSet \<Rightarrow> SCPQuorumSet" where
  "normalizeQSetSimplify idToRemove (SCPQuorumSet t v i) =
     (let (t, v) = removeValidator idToRemove t v;
          (v, i) = mergeSingletons v (map (normalizeQSetSimplify idToRemove) i)
      in if t = 1 \<and> length v = 0 \<and> length i = 1 then last i else SCPQuorumSet t v i)"

fun intLexicographicalCompare :: "('a \<Rightarrow> 'a \<Rightarrow> int) \<Rightarrow> 'a list \<Rightarrow> 'a list \<Rightarrow> int" where
  "intLexicographicalCompare cmp (x # xs) (y # ys) =
     (let c = cmp x y in if c \<noteq> 0 then c else intLexicographicalCompare cmp xs ys)"
| "intLexicographicalCompare cmp [] (y # ys) = -1"
| "intLexicographicalCompare cmp (x # xs) [] = 1"
| "intLexicographicalCompare cmp [] [] = 0"

lemma intLexicographicalCompare_cong [fundef_cong]:
  assumes "xs = xs'" "ys = ys'" "\<And>x y. x \<in> set xs' \<Longrightarrow> f x y = g x y"
  shows "intLexicographicalCompare f xs ys = intLexicographicalCompare g xs' ys'"
proof -
  have "(\<And>x y. x \<in> set xs' \<Longrightarrow> f x y = g x y) \<Longrightarrow>
      intLexicographicalCompare f xs' ys' = intLexicographicalCompare g xs' ys'" for xs' ys'
    by (induction f xs' ys' rule: intLexicographicalCompare.induct) (auto simp: Let_def)
  with assms show ?thesis by blast
qed

definition compareKeys :: "'a::linorder \<Rightarrow> 'a \<Rightarrow> int" where
  "compareKeys l r = (if l < r then -1 else if r < l then 1 else 0)"

fun qSetCompareInt :: "SCPQuorumSet \<Rightarrow> SCPQuorumSet \<Rightarrow> int" where
  "qSetCompareInt (SCPQuorumSet lt lv li) r =
     (let res = intLexicographicalCompare compareKeys lv (validators r) in
      if res \<noteq> 0 then res
      else
        let res = intLexicographicalCompare (\<lambda>x y. qSetCompareInt x y) li (innerSets r) in
        if res \<noteq> 0 then res
        else if lt < threshold r then -1 else if lt = threshold r then 0 else 1)"

subsection \<open>The order of quorum sets\<close>

lemma lexCompare_eq:
  "(\<And>x y. x \<in> set xs \<Longrightarrow> c x y = 0 \<longleftrightarrow> x = y) \<Longrightarrow>
     intLexicographicalCompare c xs ys = 0 \<longleftrightarrow> xs = ys"
  by (induction c xs ys rule: intLexicographicalCompare.induct) (auto simp: Let_def)

lemma lexCompare_sym:
  "(\<And>x y. x \<in> set xs \<Longrightarrow> c y x = - c x y) \<Longrightarrow>
     intLexicographicalCompare c ys xs = - intLexicographicalCompare c xs ys"
proof (induction xs arbitrary: ys)
  case Nil
  then show ?case by (cases ys) simp_all
next
  case (Cons x xs)
  show ?case
  proof (cases ys)
    case ys: (Cons y ys')
    have hd: "c y x = - c x y" by (rule Cons.prems) simp
    have tl: "intLexicographicalCompare c ys' xs = - intLexicographicalCompare c xs ys'"
      by (rule Cons.IH, rule Cons.prems) simp
    show ?thesis unfolding ys by (simp add: Let_def hd tl)
  qed simp
qed

lemma lexCompare_trans:
  assumes "\<And>x y. x \<in> set xs \<Longrightarrow> c x y = 0 \<longleftrightarrow> x = y" "\<And>x y. x \<in> set ys \<Longrightarrow> c x y = 0 \<longleftrightarrow> x = y"
    and "\<And>x y z. x \<in> set xs \<Longrightarrow> c x y < 0 \<Longrightarrow> c y z < 0 \<Longrightarrow> c x z < 0"
    and "intLexicographicalCompare c xs ys < 0" "intLexicographicalCompare c ys zs < 0"
  shows "intLexicographicalCompare c xs zs < 0"
  using assms
proof (induction xs arbitrary: ys zs)
  case Nil
  show ?case using Nil(4,5) by (cases ys; cases zs) simp_all
next
  case (Cons x xs)
  obtain y ys' where ys: "ys = y # ys'" using Cons.prems(4) by (cases ys) auto
  obtain z zs' where zs: "zs = z # zs'" using Cons.prems(5) ys by (cases zs) auto
  have eqs: "c x y = 0 \<longleftrightarrow> x = y" "c y z = 0 \<longleftrightarrow> y = z" "c x z = 0 \<longleftrightarrow> x = z"
    using Cons.prems(1,2) by (simp_all add: ys)
  have tr: "c x y < 0 \<Longrightarrow> c y z < 0 \<Longrightarrow> c x z < 0"
    by (rule Cons.prems(3)) simp
  have tail: "intLexicographicalCompare c xs zs' < 0"
    if "intLexicographicalCompare c xs ys' < 0" "intLexicographicalCompare c ys' zs' < 0"
  proof (rule Cons.IH[OF _ _ _ that])
    show "c a b = 0 \<longleftrightarrow> a = b" if "a \<in> set xs" for a b using Cons.prems(1) that by simp
    show "c a b = 0 \<longleftrightarrow> a = b" if "a \<in> set ys'" for a b using Cons.prems(2) that by (simp add: ys)
    show "c a d < 0" if "a \<in> set xs" "c a b < 0" "c b d < 0" for a b d
      by (rule Cons.prems(3)[OF _ that(2,3)]) (simp add: that(1))
  qed
  show ?case
    using Cons.prems(4,5) eqs tr tail
    by (cases "x = y"; cases "y = z") (auto simp: ys zs Let_def split: if_splits)
qed

interpretation keys: comparator "compareKeys :: 'a::linorder \<Rightarrow> 'a \<Rightarrow> int"
  by unfold_locales (auto simp: compareKeys_def split: if_splits)

lemma compareKeys_neg [simp]: "compareKeys a b < 0 \<longleftrightarrow> a < b"
  by (auto simp: compareKeys_def)

lemma validatorsCompare_laws:
  "intLexicographicalCompare compareKeys xs ys = 0 \<longleftrightarrow> xs = ys"
  "intLexicographicalCompare compareKeys ys xs = - intLexicographicalCompare compareKeys xs ys"
  "intLexicographicalCompare compareKeys xs ys < 0 \<Longrightarrow> intLexicographicalCompare compareKeys ys zs < 0 \<Longrightarrow>
     intLexicographicalCompare compareKeys xs zs < 0"
  by (rule lexCompare_eq keys.cmp_eq lexCompare_sym keys.cmp_sym)+
    (rule lexCompare_trans[OF keys.cmp_eq keys.cmp_eq keys.cmp_trans])

lemma qSetCompareInt_eq: "qSetCompareInt l r = 0 \<longleftrightarrow> l = r"
proof (induction l arbitrary: r)
  case (SCPQuorumSet t v i)
  then have "intLexicographicalCompare qSetCompareInt i ys = 0 \<longleftrightarrow> i = ys" for ys
    by (intro lexCompare_eq) auto
  then show ?case
    by (cases r) (auto simp: Let_def validatorsCompare_laws(1))
qed

lemma qSetCompareInt_sym: "qSetCompareInt r l = - qSetCompareInt l r"
proof (induction l arbitrary: r)
  case (SCPQuorumSet t v i)
  obtain tr vr ir where r: "r = SCPQuorumSet tr vr ir" by (cases r) auto
  have inner: "intLexicographicalCompare qSetCompareInt ir i = - intLexicographicalCompare qSetCompareInt i ir"
    by (rule lexCompare_sym) (use SCPQuorumSet in blast)
  show ?case
    unfolding r qSetCompareInt.simps SCPQuorumSet.sel validatorsCompare_laws(2)[of vr v] inner Let_def
    by auto
qed

lemma innerCompare_eq: "intLexicographicalCompare qSetCompareInt xs ys = 0 \<longleftrightarrow> xs = ys"
  by (rule lexCompare_eq) (simp add: qSetCompareInt_eq)

lemma qSetCompareInt_less:
  "qSetCompareInt (SCPQuorumSet t v i) (SCPQuorumSet t' v' i') < 0 \<longleftrightarrow>
     intLexicographicalCompare compareKeys v v' < 0 \<or>
     v = v' \<and> (intLexicographicalCompare qSetCompareInt i i' < 0 \<or> i = i' \<and> t < t')"
  using validatorsCompare_laws(1)[of v v'] innerCompare_eq[of i i']
  by (cases "v = v'"; cases "i = i'") (simp_all add: Let_def)

lemma qSetCompareInt_trans:
  "qSetCompareInt a b < 0 \<Longrightarrow> qSetCompareInt b c < 0 \<Longrightarrow> qSetCompareInt a c < 0"
proof (induction a arbitrary: b c)
  case (SCPQuorumSet t v i)
  obtain tb vb ib tc vc ic where b: "b = SCPQuorumSet tb vb ib" and c: "c = SCPQuorumSet tc vc ic"
    by (cases b, cases c) auto
  have lex: "intLexicographicalCompare qSetCompareInt i ib < 0 \<Longrightarrow>
      intLexicographicalCompare qSetCompareInt ib ic < 0 \<Longrightarrow>
      intLexicographicalCompare qSetCompareInt i ic < 0"
    by (rule lexCompare_trans[of i _ ib])
      (rule qSetCompareInt_eq qSetCompareInt_eq | erule SCPQuorumSet.IH | assumption)+
  show ?case
    using SCPQuorumSet.prems lex validatorsCompare_laws(3)[of v vb vc] less_trans[of t tb tc]
    unfolding b c qSetCompareInt_less by (elim disjE conjE) simp_all
qed

interpretation qsetcmp: comparator qSetCompareInt
  using qSetCompareInt_eq qSetCompareInt_sym qSetCompareInt_trans by unfold_locales blast+

instantiation SCPQuorumSet :: linorder
begin

definition less_SCPQuorumSet :: "SCPQuorumSet \<Rightarrow> SCPQuorumSet \<Rightarrow> bool" where
  "less_SCPQuorumSet l r \<longleftrightarrow> qSetCompareInt l r < 0"

definition less_eq_SCPQuorumSet :: "SCPQuorumSet \<Rightarrow> SCPQuorumSet \<Rightarrow> bool" where
  "less_eq_SCPQuorumSet l r \<longleftrightarrow> qSetCompareInt l r \<le> 0"

instance
proof
  fix x y z :: SCPQuorumSet
  show "x < y \<longleftrightarrow> x \<le> y \<and> \<not> y \<le> x"
    using qsetcmp.cmp_sym[of x y] unfolding less_SCPQuorumSet_def less_eq_SCPQuorumSet_def by linarith
  show "x \<le> x"
    by (simp add: less_eq_SCPQuorumSet_def qsetcmp.cmp_refl)
  show "x \<le> y \<Longrightarrow> y \<le> z \<Longrightarrow> x \<le> z"
    unfolding less_eq_SCPQuorumSet_def by (rule qsetcmp.cmp_le_trans)
  show "x \<le> y \<Longrightarrow> y \<le> x \<Longrightarrow> x = y"
    unfolding less_eq_SCPQuorumSet_def by (rule qsetcmp.cmp_le_antisym)
  show "x \<le> y \<or> y \<le> x"
    using qsetcmp.cmp_sym[of x y] unfolding less_eq_SCPQuorumSet_def by linarith
qed

end

text \<open>
  \<^verbatim>\<open>std::sort\<close> with a comparison that is zero only on equal sets has one possible result, the sorted
  list.
\<close>

fun normalizeQuorumSetReorder :: "SCPQuorumSet \<Rightarrow> SCPQuorumSet" where
  "normalizeQuorumSetReorder (SCPQuorumSet t v i) =
     SCPQuorumSet t (sort v) (sort (map normalizeQuorumSetReorder i))"

definition normalizeQSet :: "SCPQuorumSet \<Rightarrow> node_id option \<Rightarrow> SCPQuorumSet" where
  "normalizeQSet qSet idToRemove =
     normalizeQuorumSetReorder (normalizeQSetSimplify idToRemove qSet)"

end
