(* ===== verification/QuorumSpec.thy ===== *)
theory QuorumSpec
  imports QuorumSet "HOL-Library.Multiset"
begin

text \<open>
  What the quorum computations of \<open>QuorumSet\<close> mean: a set of nodes satisfies a quorum set, a set
  blocks it, a map of statements contains a quorum, and what sanity and normalisation promise. The
  locale \<open>slice_system\<close> holds the theory of quorums over any monotone notion of slice; it is
  interpreted on the model of \<^verbatim>\<open>LocalNode::isQuorumSlice\<close>.
\<close>

section \<open>Slices\<close>

text \<open>
  The number of satisfied entries a threshold asks for. The counter of the source is unsigned and
  is tested after the decrement, so a threshold of 0 asks for \<^term>\<open>2 ^ 32 :: nat\<close> entries.
\<close>

definition need :: "uint32 \<Rightarrow> nat" where
  "need t = (if t = 0 then 2 ^ 32 else unat t)"

fun sat :: "node_id set \<Rightarrow> SCPQuorumSet \<Rightarrow> bool" where
  "sat S (SCPQuorumSet t vs qs) \<longleftrightarrow>
     need t \<le> length (filter (\<lambda>v. v \<in> S) vs) + length (filter (sat S) qs)"

lemma need_alt: "need l = Suc (unat (l - 1))"
proof (cases "l = 0")
  case False
  then show ?thesis by (simp add: need_def unat_minus_one unat_gt_0)
qed (simp add: need_def unsigned_minus_1_eq_mask mask_eq_exp_minus_1)

lemma need_minus_one: "l \<noteq> 1 \<Longrightarrow> need (l - 1) = need l - 1"
  using unat_minus_one[of "l - 1"] unat_gt_0[of "l - 1"] by (simp add: need_alt)

lemma need_pos [simp]: "0 < need l"
  by (simp add: need_alt)

lemma need_one_iff: "need l = Suc 0 \<longleftrightarrow> l = 1"
  by (simp add: need_alt unat_eq_0)

lemma countDown_word:
  "countDown P (l :: uint32) xs =
     (if need l \<le> length (filter P xs) then None else Some (l - of_nat (length (filter P xs))))"
proof (induction xs arbitrary: l)
  case (Cons x xs)
  show ?case
  proof (cases "P x \<and> l \<noteq> 1")
    case True
    then show ?thesis
      using Cons[of "l - 1"] need_minus_one[of l] need_pos[of l] need_one_iff[of l]
      by (auto simp: Let_def)
  next
    case False
    then show ?thesis using Cons[of l] by (auto simp: Let_def need_one_iff need_def)
  qed
qed (simp add: not_le)

lemma need_minus: "c < need l \<Longrightarrow> need (l - of_nat c) = need l - c"
proof (induction c)
  case (Suc c)
  then have "need (l - of_nat c) = need l - c" by simp
  moreover from this Suc.prems have "l - of_nat c \<noteq> 1" by (auto simp: need_one_iff[symmetric])
  ultimately show ?case using need_minus_one[of "l - of_nat c"] by (simp add: algebra_simps)
qed simp

lemma countDown_none_iff:
  "countDown P (l :: uint32) xs = None \<longleftrightarrow> need l \<le> length (filter P xs)"
  by (simp add: countDown_word)

lemma isQuorumSliceInternal_sat: "isQuorumSliceInternal q ns \<longleftrightarrow> sat (set ns) q"
proof (induction q)
  case (SCPQuorumSet t vs qs)
  then have inner: "filter (\<lambda>q. isQuorumSliceInternal q ns) qs = filter (sat (set ns)) qs"
    by (intro filter_cong) auto
  let ?c = "length (filter (\<lambda>v. v \<in> set ns) vs)"
  show ?case
  proof (cases "need t \<le> ?c")
    case False
    then show ?thesis
      using need_minus[of ?c t] inner by (auto simp: countDown_word)
  qed (simp add: countDown_word)
qed

lemma sat_mono: "sat S q \<Longrightarrow> S \<subseteq> T \<Longrightarrow> sat T q"
proof (induction q)
  case (SCPQuorumSet t vs qs)
  have "length (filter (\<lambda>v. v \<in> S) vs) \<le> length (filter (\<lambda>v. v \<in> T) vs)"
    using SCPQuorumSet.prems(2) by (induction vs) auto
  moreover have "length (filter (sat S) qs) \<le> length (filter (sat T) qs)"
    using SCPQuorumSet.IH SCPQuorumSet.prems(2) by (induction qs) auto
  ultimately show ?case using SCPQuorumSet.prems(1) by simp
qed

section \<open>Quorums\<close>

text \<open>
  A set of nodes sustains itself when each of its nodes has a quorum set, and has a slice of it
  inside the set. A quorum for a quorum set is such a set that also satisfies that quorum set.
\<close>

definition sustained :: "('n set \<Rightarrow> 'q \<Rightarrow> bool) \<Rightarrow> ('n \<Rightarrow> 'q option) \<Rightarrow> 'n set \<Rightarrow> bool" where
  "sustained slc qset_of U \<longleftrightarrow> (\<forall>n\<in>U. \<exists>q. qset_of n = Some q \<and> slc U q)"

locale slice_system =
  fixes slc :: "'n set \<Rightarrow> 'q \<Rightarrow> bool"
  assumes slice_mono: "slc S q \<Longrightarrow> S \<subseteq> T \<Longrightarrow> slc T q"
begin

lemma sustained_Union: "(\<And>U. U \<in> F \<Longrightarrow> sustained slc f U) \<Longrightarrow> sustained slc f (\<Union>F)"
  unfolding sustained_def by (meson UnionE Union_upper slice_mono)

lemma sustained_filter:
  "sustained slc f U \<Longrightarrow> U \<subseteq> P \<Longrightarrow> U \<subseteq> {n \<in> P. \<exists>q. f n = Some q \<and> slc P q}"
  unfolding sustained_def using slice_mono by blast

text \<open>
  The greatest sustained part of a set decides whether it holds a quorum: a quorum set is
  satisfied by some sustained subset exactly when it is satisfied by the greatest one.
\<close>

lemma quorum_greatest:
  assumes "sustained slc f G" "G \<subseteq> P" "\<And>U. sustained slc f U \<Longrightarrow> U \<subseteq> P \<Longrightarrow> U \<subseteq> G"
  shows "slc G q \<longleftrightarrow> (\<exists>U\<subseteq>P. sustained slc f U \<and> slc U q)"
  using assms slice_mono by meson

end

interpretation sl: slice_system sat
  by unfold_locales (rule sat_mono)

lemma quorumFilter_iff:
  "quorumFilter f ns n \<longleftrightarrow> (\<exists>q. f n = Some q \<and> sat (set ns) q)"
  by (auto simp: quorumFilter_def isQuorumSlice_def isQuorumSliceInternal_sat split: option.splits)

lemma filter_same_length: "length xs = length (filter P xs) \<longleftrightarrow> filter P xs = xs"
  by (metis filter_id_conv length_filter_less nat_less_le)

lemma quorumLoop_unfold:
  "quorumLoop f ns =
     (if filter (quorumFilter f ns) ns = ns then ns else quorumLoop f (filter (quorumFilter f ns) ns))"
  by (subst quorumLoop.simps) (auto simp: Let_def filter_same_length)

lemma quorumLoop_rule [case_names step]:
  assumes "\<And>ns. (filter (quorumFilter f ns) ns \<noteq> ns \<Longrightarrow> P (filter (quorumFilter f ns) ns)) \<Longrightarrow> P ns"
  shows "P ns"
proof (induction ns rule: measure_induct_rule[of length])
  case (less ns)
  show ?case
  proof (rule assms, rule less)
    assume "filter (quorumFilter f ns) ns \<noteq> ns"
    then show "length (filter (quorumFilter f ns) ns) < length ns"
      using filter_same_length[of ns] length_filter_le[of "quorumFilter f ns" ns]
      by (metis nat_less_le)
  qed
qed

lemma quorumLoop_subset: "set (quorumLoop f ns) \<subseteq> set ns"
proof (induction ns rule: quorumLoop_rule[of f])
  case (step ns)
  then show ?case using quorumLoop_unfold[of f ns] by auto
qed

lemma quorumLoop_sustained: "sustained sat f (set (quorumLoop f ns))"
proof (induction ns rule: quorumLoop_rule[of f])
  case (step ns)
  show ?case
  proof (cases "filter (quorumFilter f ns) ns = ns")
    case True
    then show ?thesis
      using quorumLoop_unfold[of f ns] by (simp add: sustained_def filter_id_conv quorumFilter_iff)
  next
    case False
    with step show ?thesis using quorumLoop_unfold[of f ns] by simp
  qed
qed

lemma quorumLoop_greatest: "sustained sat f U \<Longrightarrow> U \<subseteq> set ns \<Longrightarrow> U \<subseteq> set (quorumLoop f ns)"
proof (induction ns rule: quorumLoop_rule[of f])
  case (step ns)
  have "U \<subseteq> set (filter (quorumFilter f ns) ns)"
    using sl.sustained_filter[OF step(2,3)] by (auto simp: quorumFilter_iff)
  with step show ?case using quorumLoop_unfold[of f ns] by auto
qed

definition qset_in :: "(node_id \<times> 'e) list \<Rightarrow> ('e \<Rightarrow> SCPQuorumSet option) \<Rightarrow> node_id \<Rightarrow> SCPQuorumSet option" where
  "qset_in m qfun n = (case omap_find m n of Some e \<Rightarrow> qfun e | None \<Rightarrow> None)"

lemma isQuorum_iff:
  "isQuorum qSet m qfun filt \<longleftrightarrow>
     (\<exists>U \<subseteq> set (filterNodes m filt). sustained sat (qset_in m qfun) U \<and> sat U qSet)"
  unfolding isQuorum_def isQuorumSlice_def isQuorumSliceInternal_sat qset_in_def
  by (rule sl.quorum_greatest[OF quorumLoop_sustained quorumLoop_subset quorumLoop_greatest])

section \<open>Sanity\<close>

text \<open>The nodes a quorum set names, in the order they are visited, and its nesting depth.\<close>

fun qset_nodes :: "SCPQuorumSet \<Rightarrow> node_id list" where
  "qset_nodes (SCPQuorumSet t vs qs) = vs @ concat (map qset_nodes qs)"

fun nested_within :: "nat \<Rightarrow> SCPQuorumSet \<Rightarrow> bool" where
  "nested_within 0 (SCPQuorumSet t vs qs) \<longleftrightarrow> qs = []"
| "nested_within (Suc d) (SCPQuorumSet t vs qs) \<longleftrightarrow> (\<forall>q \<in> set qs. nested_within d q)"

text \<open>
  Every threshold is between 1 and the number of entries, and, when the extra checks are on, at
  least the size of a blocking set.
\<close>

fun thresholds_ok :: "bool \<Rightarrow> SCPQuorumSet \<Rightarrow> bool" where
  "thresholds_ok extra (SCPQuorumSet t vs qs) \<longleftrightarrow>
     1 \<le> unat t \<and> unat t \<le> length vs + length qs \<and>
     (extra \<longrightarrow> length vs + length qs + 1 \<le> 2 * unat t) \<and>
     (\<forall>q \<in> set qs. thresholds_ok extra q)"

lemma insertKnown_iff:
  "insertKnown known ns = (if distinct ns \<and> set ns \<inter> set known = {} then Some (fold set_insert ns known) else None)"
  by (induction known ns rule: insertKnown.induct) auto

lemma set_fold_set_insert [simp]: "set (fold set_insert ns known) = set ns \<union> set known"
  by (induction ns arbitrary: known) auto

lemma checkSanityInner_iff:
  assumes "\<And>q known num known' num'. q \<in> set qs \<Longrightarrow>
      checkSanity extra q e (known, num) = Inr (known', num') \<longleftrightarrow>
      W q \<and> distinct (qset_nodes q) \<and> set (qset_nodes q) \<inter> set known = {} \<and>
      known' = fold set_insert (qset_nodes q) known \<and> num' = num + length (qset_nodes q)"
  shows "checkSanityInner extra qs e (known, num) = Inr (known', num') \<longleftrightarrow>
      (\<forall>q \<in> set qs. W q) \<and> distinct (concat (map qset_nodes qs)) \<and>
      set (concat (map qset_nodes qs)) \<inter> set known = {} \<and>
      known' = fold set_insert (concat (map qset_nodes qs)) known \<and>
      num' = num + length (concat (map qset_nodes qs))"
  using assms
proof (induction qs arbitrary: known num)
  case (Cons q qs)
  note head = Cons.prems[of q known num]
  note tail = Cons.IH[OF Cons.prems]
  show ?case
  proof (cases "checkSanity extra q e (known, num)")
    case (Inl err)
    then have "\<not> (W q \<and> distinct (qset_nodes q) \<and> set (qset_nodes q) \<inter> set known = {})"
      using head by auto
    with Inl show ?thesis by auto
  next
    case (Inr p)
    then have "W q \<and> distinct (qset_nodes q) \<and> set (qset_nodes q) \<inter> set known = {} \<and>
        p = (fold set_insert (qset_nodes q) known, num + length (qset_nodes q))"
      using head by (cases p) auto
    with Inr tail show ?thesis by auto
  qed
qed auto

lemma checkSanity_iff:
  "e \<le> 5 \<Longrightarrow> checkSanity extra q (of_nat e) (known, num) = Inr (known', num') \<longleftrightarrow>
     (e \<le> 4 \<and> thresholds_ok extra q \<and> nested_within (4 - e) q) \<and> distinct (qset_nodes q) \<and>
     set (qset_nodes q) \<inter> set known = {} \<and>
     known' = fold set_insert (qset_nodes q) known \<and> num' = num + length (qset_nodes q)"
proof (induction q arbitrary: e known num known' num')
  case (SCPQuorumSet t vs qs)
  have lvl: "of_nat e > MAXIMUM_QUORUM_NESTING_LEVEL \<longleftrightarrow> e = 5"
    using \<open>e \<le> 5\<close> unat_of_nat_less[of e, where 'a = 32]
    by (auto simp: MAXIMUM_QUORUM_NESTING_LEVEL_def word_less_nat_alt)
  have t: "t < 1 \<longleftrightarrow> unat t = 0" by (simp add: unat_eq_0 word_less_1)
  have inner: "checkSanityInner extra qs (of_nat e + 1) (k, c) = Inr (known', num') \<longleftrightarrow>
      (\<forall>q \<in> set qs. Suc e \<le> 4 \<and> thresholds_ok extra q \<and> nested_within (4 - Suc e) q) \<and>
      distinct (concat (map qset_nodes qs)) \<and> set (concat (map qset_nodes qs)) \<inter> set k = {} \<and>
      known' = fold set_insert (concat (map qset_nodes qs)) k \<and>
      num' = c + length (concat (map qset_nodes qs))" if "e \<le> 4" for k c
    using checkSanityInner_iff[of qs extra "of_nat e + 1"
        "\<lambda>q. Suc e \<le> 4 \<and> thresholds_ok extra q \<and> nested_within (4 - Suc e) q"]
      SCPQuorumSet.IH[of _ "Suc e"] that by (simp add: add.commute)
  have nest: "nested_within (4 - e) (SCPQuorumSet t vs qs) \<longleftrightarrow>
      (\<forall>q \<in> set qs. Suc e \<le> 4 \<and> nested_within (4 - Suc e) q)" if "e \<le> 4"
  proof (cases "e = 4")
    case False
    then have "4 - e = Suc (4 - Suc e)" using that by simp
    then show ?thesis using False that by simp
  qed auto
  show ?case
  proof (cases "e = 5")
    case False
    then have e: "e \<le> 4" using \<open>e \<le> 5\<close> by simp
    show ?thesis
      using lvl e nest[OF e] by (auto simp: t Let_def insertKnown_iff inner[OF e] not_less Suc_le_eq unat_gt_0)
  qed (use lvl in simp)
qed

lemma isQuorumSetSane_iff:
  "isQuorumSetSane q extra \<longleftrightarrow>
     thresholds_ok extra q \<and> nested_within 4 q \<and> distinct (qset_nodes q) \<and>
     1 \<le> length (qset_nodes q) \<and> length (qset_nodes q) \<le> 1000"
proof (cases "checkSanity extra q 0 ([], 0)")
  case (Inl err)
  then show ?thesis
    using checkSanity_iff[of 0 extra q "[]" 0] by (auto simp: isQuorumSetSane_def)
next
  case (Inr p)
  then show ?thesis
    using checkSanity_iff[of 0 extra q "[]" 0 "fst p" "snd p"]
    by (auto simp: isQuorumSetSane_def Suc_le_eq split: prod.splits)
qed

lemma length_concat_ge:
  "(\<And>x. x \<in> set xs \<Longrightarrow> f x \<noteq> []) \<Longrightarrow> length xs \<le> length (concat (map f xs))"
  by (induction xs) (auto simp: Suc_le_eq intro: add_le_mono[of "Suc 0", simplified])

lemma thresholds_ok_nodes: "thresholds_ok extra q \<Longrightarrow> qset_nodes q \<noteq> []"
proof (induction q)
  case (SCPQuorumSet t vs qs)
  then show ?case by (cases vs; cases qs) auto
qed

text \<open>A quorum set with the thresholds in range and at most 1000 nodes has as few entries.\<close>

definition small_ok :: "SCPQuorumSet \<Rightarrow> bool" where
  "small_ok q \<longleftrightarrow> thresholds_ok False q \<and> length (qset_nodes q) \<le> 1000"

lemma small_ok_simps:
  assumes "small_ok (SCPQuorumSet t vs qs)"
  shows "1 \<le> unat t" "unat t \<le> length vs + length qs" "length vs + length qs \<le> 1000"
    "\<And>q. q \<in> set qs \<Longrightarrow> small_ok q"
proof -
  have th: "thresholds_ok False (SCPQuorumSet t vs qs)"
    and len: "length vs + length (concat (map qset_nodes qs)) \<le> 1000"
    using assms by (simp_all add: small_ok_def)
  have "length qs \<le> length (concat (map qset_nodes qs))"
    using th by (intro length_concat_ge) (auto dest: thresholds_ok_nodes)
  then show "1 \<le> unat t" "unat t \<le> length vs + length qs" "length vs + length qs \<le> 1000"
    using th len by simp_all
  fix q assume q: "q \<in> set qs"
  then have "length (qset_nodes q) \<le> length (concat (map qset_nodes qs))"
    by (auto simp: length_concat member_le_sum_list)
  with q th len show "small_ok q" by (simp add: small_ok_def)
qed

lemma thresholds_ok_weaken: "thresholds_ok extra q \<Longrightarrow> thresholds_ok False q"
  by (induction q) auto

lemma sane_small_ok: "isQuorumSetSane q extra \<Longrightarrow> small_ok q"
  unfolding isQuorumSetSane_iff small_ok_def using thresholds_ok_weaken by blast

section \<open>Blocking sets\<close>

lemma countDown_int:
  "0 < l \<Longrightarrow> countDown P (l :: int) xs =
     (if l \<le> int (length (filter P xs)) then None else Some (l - int (length (filter P xs))))"
proof (induction xs arbitrary: l)
  case (Cons x xs)
  then show ?case using Cons.IH[of "l - 1"] Cons.IH[of l] by (auto simp: Let_def)
qed simp

lemma left_till_block:
  assumes "unat (t :: uint32) \<le> n" "n \<le> 1000"
  shows "(of_nat (1 + n) - ucast t :: uint64) = of_nat (1 + n - unat t)"
    and "sint (ucast (of_nat (1 + n) - ucast t :: uint64) :: uint32) = int (1 + n - unat t)"
proof -
  have t: "(ucast t :: uint64) = of_nat (unat t)"
    by simp
  show eq: "(of_nat (1 + n) - ucast t :: uint64) = of_nat (1 + n - unat t)"
    using assms unfolding t by (subst of_nat_diff) auto
  have k: "1 + n - unat t \<le> 1001" using assms by simp
  have "(ucast (of_nat (1 + n - unat t) :: uint64) :: uint32) = of_nat (1 + n - unat t)"
    using k by (simp add: unsigned_of_nat take_bit_nat_eq_self)
  then show "sint (ucast (of_nat (1 + n) - ucast t :: uint64) :: uint32) = int (1 + n - unat t)"
    unfolding eq using k by (simp add: signed_of_nat signed_take_bit_int_eq_self)
qed

lemma isVBlockingInternal_sat: "small_ok q \<Longrightarrow> isVBlockingInternal q ns \<longleftrightarrow> \<not> sat (- set ns) q"
proof (induction q)
  case (SCPQuorumSet t vs qs)
  note b = small_ok_simps[OF SCPQuorumSet.prems]
  have t: "t \<noteq> 0" using b(1) by auto
  define l where "l = 1 + (length vs + length qs) - unat t"
  have l: "sint (ucast (of_nat (1 + length vs + length qs) - ucast t :: uint64) :: uint32) = int l"
    using left_till_block(2)[OF b(2,3)] by (simp add: l_def)
  have l0: "0 < l" using b(2) by (simp add: l_def)
  have inner: "filter (\<lambda>q. isVBlockingInternal q ns) qs = filter (\<lambda>q. \<not> sat (- set ns) q) qs"
    using SCPQuorumSet.IH b(4) by (intro filter_cong) auto
  let ?a = "length (filter (\<lambda>v. v \<in> set ns) vs)" and ?b = "length (filter (\<lambda>q. \<not> sat (- set ns) q) qs)"
  have "isVBlockingInternal (SCPQuorumSet t vs qs) ns \<longleftrightarrow> l \<le> ?a + ?b"
    using t l0 unfolding isVBlockingInternal.simps l by (auto simp: Let_def countDown_int inner)
  moreover have "?a + length (filter (\<lambda>v. v \<notin> set ns) vs) = length vs"
    "length (filter (sat (- set ns)) qs) + ?b = length qs"
    by (rule sum_length_filter_compl)+
  ultimately show ?case using t by (auto simp: need_def l_def)
qed

lemma sat_all_nodes: "small_ok q \<Longrightarrow> set (qset_nodes q) \<subseteq> S \<Longrightarrow> sat S q"
proof (induction q)
  case (SCPQuorumSet t vs qs)
  note b = small_ok_simps[OF SCPQuorumSet.prems(1)]
  have "filter (\<lambda>v. v \<in> S) vs = vs"
    using SCPQuorumSet.prems(2) by (auto simp: filter_id_conv)
  moreover have "filter (sat S) qs = qs"
    unfolding filter_id_conv
  proof
    fix q assume q: "q \<in> set qs"
    show "sat S q"
      by (rule SCPQuorumSet.IH[OF q b(4)[OF q]]) (use q SCPQuorumSet.prems(2) in auto)
  qed
  ultimately show ?case using b(1,2) by (auto simp: need_def)
qed

text \<open>Only the nodes a quorum set names matter.\<close>

lemma sat_restrict: "sat (S \<inter> set (qset_nodes q)) q \<longleftrightarrow> sat S q"
proof -
  have "set (qset_nodes q) \<subseteq> T \<Longrightarrow> sat (S \<inter> T) q \<longleftrightarrow> sat S q" for T
  proof (induction q)
    case (SCPQuorumSet t vs qs)
    have v: "filter (\<lambda>v. v \<in> S \<inter> T) vs = filter (\<lambda>v. v \<in> S) vs"
      using SCPQuorumSet.prems by (intro filter_cong) auto
    have q: "filter (sat (S \<inter> T)) qs = filter (sat S) qs"
      by (rule filter_cong[OF refl], rule SCPQuorumSet.IH) (use SCPQuorumSet.prems in auto)
    show ?case by (simp only: sat.simps v q)
  qed
  then show ?thesis by blast
qed

lemma not_sat_iff_intersects:
  "\<not> sat (- S) q \<longleftrightarrow> (\<forall>ms. isQuorumSlice q ms \<longrightarrow> set ms \<inter> S \<noteq> {})"
proof
  assume "\<not> sat (- S) q"
  then show "\<forall>ms. isQuorumSlice q ms \<longrightarrow> set ms \<inter> S \<noteq> {}"
    unfolding isQuorumSlice_def isQuorumSliceInternal_sat using sat_mono[of _ q "- S"] by blast
next
  assume all: "\<forall>ms. isQuorumSlice q ms \<longrightarrow> set ms \<inter> S \<noteq> {}"
  show "\<not> sat (- S) q"
  proof
    assume "sat (- S) q"
    then have "sat (- S \<inter> set (qset_nodes q)) q" by (simp add: sat_restrict)
    then have "isQuorumSlice q (filter (\<lambda>n. n \<notin> S) (qset_nodes q))"
      unfolding isQuorumSlice_def isQuorumSliceInternal_sat
      by (elim sat_mono) auto
    then show False using all by fastforce
  qed
qed

section \<open>Normalisation\<close>

text \<open>
  The entries of a quorum set that a set of nodes satisfies; moving singletons to the validators
  and reordering keep their number.
\<close>

lemma sat_singleton: "isSingleton q \<Longrightarrow> sat S q \<longleftrightarrow> hd (validators q) \<in> S"
  by (cases q; cases "validators q") (auto simp: isSingleton_def need_def)

lemma mergeSingletons_eq:
  "mergeSingletons v qs =
     (v @ map (\<lambda>q. hd (validators q)) (filter isSingleton qs), filter (\<lambda>q. \<not> isSingleton q) qs)"
  by (induction v qs rule: mergeSingletons.induct) auto

lemma mergeSingletons_sat:
  assumes "mergeSingletons v qs = (v', qs')"
  shows "length (filter (\<lambda>n. n \<in> S) v') + length (filter (sat S) qs') =
     length (filter (\<lambda>n. n \<in> S) v) + length (filter (sat S) qs)"
proof -
  have "length (filter (\<lambda>n. n \<in> S) (map (\<lambda>q. hd (validators q)) (filter isSingleton qs))) +
      length (filter (sat S) (filter (\<lambda>q. \<not> isSingleton q) qs)) = length (filter (sat S) qs)"
    by (induction qs) (auto simp: sat_singleton)
  then show ?thesis using assms by (auto simp: mergeSingletons_eq)
qed

lemma need_1 [simp]: "need 1 = 1"
  by (simp add: need_def)

lemma sat_collapse:
  "sat S (if t = 1 \<and> length v = 0 \<and> length i = 1 then last i else SCPQuorumSet t v i) \<longleftrightarrow>
     sat S (SCPQuorumSet t v i)"
  by (auto simp: length_Suc_conv split: if_splits)

lemma sat_simplify: "sat S (normalizeQSetSimplify None q) \<longleftrightarrow> sat S q"
proof (induction q)
  case (SCPQuorumSet t vs qs)
  obtain v' qs' where m: "mergeSingletons vs (map (normalizeQSetSimplify None) qs) = (v', qs')"
    by (cases "mergeSingletons vs (map (normalizeQSetSimplify None) qs)") auto
  have "length (filter (sat S) (map (normalizeQSetSimplify None) qs)) = length (filter (sat S) qs)"
    using SCPQuorumSet by (induction qs) auto
  with mergeSingletons_sat[OF m, of S] show ?case
    by (simp only: normalizeQSetSimplify.simps removeValidator_def option.case Let_def prod.case m
        sat_collapse sat.simps)
qed

lemma length_filter_sort [simp]: "length (filter P (sort xs)) = length (filter P xs)"
  by (metis mset_filter mset_sort size_mset)

lemma sat_reorder [simp]: "sat S (normalizeQuorumSetReorder q) \<longleftrightarrow> sat S q"
proof (induction q)
  case (SCPQuorumSet t vs qs)
  have "length (filter (sat S) (map normalizeQuorumSetReorder qs)) = length (filter (sat S) qs)"
    using SCPQuorumSet by (induction qs) auto
  then show ?case by simp
qed

text \<open>The normal form, and that it is one.\<close>

fun simplified :: "SCPQuorumSet \<Rightarrow> bool" where
  "simplified (SCPQuorumSet t v i) \<longleftrightarrow>
     (\<forall>q \<in> set i. simplified q \<and> \<not> isSingleton q) \<and> \<not> (t = 1 \<and> v = [] \<and> length i = 1)"

lemma simplify_simplified: "simplified (normalizeQSetSimplify r q)"
proof (induction q)
  case (SCPQuorumSet t vs qs)
  obtain t' v0 where r: "removeValidator r t vs = (t', v0)" by (cases "removeValidator r t vs")
  obtain v' qs' where m: "mergeSingletons v0 (map (normalizeQSetSimplify r) qs) = (v', qs')"
    by (cases "mergeSingletons v0 (map (normalizeQSetSimplify r) qs)")
  have inner: "\<forall>q \<in> set qs'. simplified q \<and> \<not> isSingleton q"
    using m SCPQuorumSet by (auto simp: mergeSingletons_eq)
  then show ?case
  proof (cases "t' = 1 \<and> length v' = 0 \<and> length qs' = 1")
    case True
    then obtain q where "qs' = [q]" by (auto simp: length_Suc_conv)
    then show ?thesis using True inner by (simp add: r m)
  next
    case False
    then have "normalizeQSetSimplify r (SCPQuorumSet t vs qs) = SCPQuorumSet t' v' qs'"
      by (simp only: normalizeQSetSimplify.simps r m Let_def prod.case if_False)
    then show ?thesis using False inner by auto
  qed
qed

lemma simplify_id: "simplified q \<Longrightarrow> normalizeQSetSimplify None q = q"
proof (induction q)
  case (SCPQuorumSet t vs qs)
  then have map: "map (normalizeQSetSimplify None) qs = qs" by (intro map_idI) simp
  have merge: "mergeSingletons vs qs = (vs, qs)"
    using SCPQuorumSet.prems by (simp add: mergeSingletons_eq filter_empty_conv filter_id_conv)
  have "\<not> (t = 1 \<and> length vs = 0 \<and> length qs = 1)"
    using SCPQuorumSet.prems by simp
  then show ?case
    by (simp only: normalizeQSetSimplify.simps removeValidator_def option.case map merge Let_def
        prod.case if_False)
qed

lemma isSingleton_reorder [simp]: "isSingleton (normalizeQuorumSetReorder q) = isSingleton q"
  by (cases q) (simp add: isSingleton_def)

lemma reorder_simplified: "simplified q \<Longrightarrow> simplified (normalizeQuorumSetReorder q)"
proof (induction q)
  case (SCPQuorumSet t vs qs)
  have "sort vs = [] \<longleftrightarrow> vs = []" by (metis mset_sort mset_zero_iff)
  with SCPQuorumSet show ?case by auto
qed

lemma reorder_idem: "normalizeQuorumSetReorder (normalizeQuorumSetReorder q) = normalizeQuorumSetReorder q"
proof (induction q)
  case (SCPQuorumSet t vs qs)
  then have "map normalizeQuorumSetReorder (sort (map normalizeQuorumSetReorder qs)) =
      sort (map normalizeQuorumSetReorder qs)"
    by (intro map_idI) auto
  then show ?case by (simp add: sorted_sort_id)
qed

lemma normalizeQSet_idem: "normalizeQSet (normalizeQSet q r) None = normalizeQSet q r"
  by (simp add: normalizeQSet_def simplify_id reorder_simplified simplify_simplified reorder_idem)

lemma sat_normalizeQSet: "sat S (normalizeQSet q None) \<longleftrightarrow> sat S q"
  by (simp add: normalizeQSet_def sat_simplify)

text \<open>Sanity survives normalisation.\<close>

lemma nested_within_mono: "nested_within d q \<Longrightarrow> d \<le> e \<Longrightarrow> nested_within e q"
proof (induction d q arbitrary: e rule: nested_within.induct)
  case (1 t vs qs)
  then show ?case by (cases e) auto
next
  case (2 d t vs qs)
  then show ?case by (cases e) auto
qed

lemma thresholds_ok_reorder [simp]: "thresholds_ok x (normalizeQuorumSetReorder q) = thresholds_ok x q"
  by (induction q) auto

lemma nested_within_reorder [simp]: "nested_within d (normalizeQuorumSetReorder q) = nested_within d q"
proof (induction d q rule: nested_within.induct)
  case (1 t vs qs)
  have "sort (map normalizeQuorumSetReorder qs) = [] \<longleftrightarrow> qs = []"
    by (metis length_0_conv length_map length_sort)
  then show ?case by simp
qed auto

lemma nodes_reorder [simp]: "mset (qset_nodes (normalizeQuorumSetReorder q)) = mset (qset_nodes q)"
proof (induction q)
  case (SCPQuorumSet t vs qs)
  have "mset (concat (map qset_nodes (sort (map normalizeQuorumSetReorder qs)))) =
      (\<Sum>x\<in>#mset (sort (map normalizeQuorumSetReorder qs)). mset (qset_nodes x))"
    by (simp only: mset_concat map_map comp_def flip: sum_mset_sum_list mset_map)
  also have "\<dots> = (\<Sum>x\<in>#mset qs. mset (qset_nodes (normalizeQuorumSetReorder x)))"
    by (simp add: image_mset.compositionality comp_def)
  also have "\<dots> = (\<Sum>x\<in>#mset qs. mset (qset_nodes x))"
    using SCPQuorumSet by (intro arg_cong[of _ _ sum_mset] image_mset_cong) simp
  also have "\<dots> = mset (concat (map qset_nodes qs))"
    by (simp only: mset_concat map_map comp_def flip: sum_mset_sum_list mset_map)
  finally show ?case by simp
qed

lemma nodes_singleton: "isSingleton q \<Longrightarrow> qset_nodes q = [hd (validators q)]"
  by (cases q; cases "validators q") (auto simp: isSingleton_def)

lemma mergeSingletons_nodes:
  "mset (v @ map (\<lambda>q. hd (validators q)) (filter isSingleton qs) @
      concat (map qset_nodes (filter (\<lambda>q. \<not> isSingleton q) qs))) =
   mset (v @ concat (map qset_nodes qs))"
  by (induction qs) (auto simp: nodes_singleton)

lemma simplify_facts:
  "mset (qset_nodes (normalizeQSetSimplify None q)) = mset (qset_nodes q) \<and>
   (thresholds_ok x q \<longrightarrow> thresholds_ok x (normalizeQSetSimplify None q)) \<and>
   (nested_within d q \<longrightarrow> nested_within d (normalizeQSetSimplify None q))"
proof (induction q arbitrary: d)
  case (SCPQuorumSet t vs qs)
  define ps where "ps = map (normalizeQSetSimplify None) qs"
  define v' i' where "v' = vs @ map (\<lambda>q. hd (validators q)) (filter isSingleton ps)"
    and "i' = filter (\<lambda>q. \<not> isSingleton q) ps"
  have m: "mergeSingletons vs (map (normalizeQSetSimplify None) qs) = (v', i')"
    by (simp add: mergeSingletons_eq v'_def i'_def ps_def)
  have len: "length v' + length i' = length vs + length qs"
    using sum_length_filter_compl[of isSingleton ps] by (simp add: v'_def i'_def ps_def)
  have "mset (concat (map qset_nodes ps)) = mset (concat (map qset_nodes qs))"
    using SCPQuorumSet unfolding ps_def by (induction qs) auto
  then have nodes: "mset (qset_nodes (SCPQuorumSet t v' i')) = mset (qset_nodes (SCPQuorumSet t vs qs))"
    using mergeSingletons_nodes[of vs ps] by (simp add: v'_def i'_def)
  have thr: "thresholds_ok x (SCPQuorumSet t vs qs) \<longrightarrow> thresholds_ok x (SCPQuorumSet t v' i')"
    using SCPQuorumSet len by (auto simp: i'_def ps_def)
  have nest: "nested_within d (SCPQuorumSet t vs qs) \<longrightarrow> nested_within d (SCPQuorumSet t v' i')"
    using SCPQuorumSet by (cases d) (auto simp: i'_def ps_def)
  show ?case
  proof (cases "t = 1 \<and> length v' = 0 \<and> length i' = 1")
    case True
    then obtain q where q: "v' = []" "i' = [q]" by (auto simp: length_Suc_conv)
    then have s: "normalizeQSetSimplify None (SCPQuorumSet t vs qs) = q"
      using True m by (simp add: removeValidator_def)
    have "nested_within d (SCPQuorumSet t v' i') \<longrightarrow> nested_within d q"
      using q nested_within_mono[of "d - 1" q d] by (cases d) auto
    then show ?thesis using s q nodes thr nest by auto
  next
    case False
    then have s: "normalizeQSetSimplify None (SCPQuorumSet t vs qs) = SCPQuorumSet t v' i'"
      by (simp only: normalizeQSetSimplify.simps removeValidator_def option.case m Let_def prod.case
          if_False)
    show ?thesis unfolding s using nodes thr nest by blast
  qed
qed

lemma sane_normalizeQSet: "isQuorumSetSane q x \<Longrightarrow> isQuorumSetSane (normalizeQSet q None) x"
proof -
  assume s: "isQuorumSetSane q x"
  have "mset (qset_nodes (normalizeQSet q None)) = mset (qset_nodes q)"
    unfolding normalizeQSet_def using simplify_facts by simp
  then have "length (qset_nodes (normalizeQSet q None)) = length (qset_nodes q)"
    "distinct (qset_nodes (normalizeQSet q None)) = distinct (qset_nodes q)"
    by (auto dest: mset_eq_length mset_eq_imp_distinct_iff)
  then show ?thesis
    using s simplify_facts[of q x] unfolding isQuorumSetSane_iff normalizeQSet_def by simp
qed

section \<open>Properties\<close>

text \<open>
  Property C12. \<^verbatim>\<open>isQuorumSetSane\<close> accepts exactly the quorum sets in which every threshold is between
  1 and the number of entries of its set (and, with the extra checks, at least the size of a blocking
  set), sets are nested at most 4 levels deep below the top, no node occurs twice, and there are
  between 1 and 1000 nodes.
\<close>

theorem isQuorumSetSane_correct:
  "isQuorumSetSane q extra \<longleftrightarrow>
     thresholds_ok extra q \<and> nested_within 4 q \<and> distinct (qset_nodes q) \<and>
     1 \<le> length (qset_nodes q) \<and> length (qset_nodes q) \<le> 1000"
  by (rule isQuorumSetSane_iff)

text \<open>
  Property C8. \<^verbatim>\<open>isVBlocking\<close> is the dual of \<^verbatim>\<open>isQuorumSlice\<close>: for a sane quorum set, a list of nodes is
  reported as blocking exactly when it meets every quorum slice. The signed 32-bit counter and the
  unsigned one of the two loops never wrap on such sets.
\<close>

theorem isVBlocking_iff_meets_all_slices:
  assumes "isQuorumSetSane q extra"
  shows "isVBlocking q ns \<longleftrightarrow> (\<forall>ms. isQuorumSlice q ms \<longrightarrow> set ms \<inter> set ns \<noteq> {})"
  unfolding isVBlocking_def isVBlockingInternal_sat[OF sane_small_ok[OF assms]]
  by (rule not_sat_iff_intersects)

theorem isVBlocking_iff_meets_all_slices_witness:
  "isQuorumSetSane (SCPQuorumSet 2 [1, 2] [SCPQuorumSet 1 [3, 4] []]) False \<and>
   (isVBlocking (SCPQuorumSet 2 [1, 2] [SCPQuorumSet 1 [3, 4] []]) [1, 2] \<longleftrightarrow>
    (\<forall>ms. isQuorumSlice (SCPQuorumSet 2 [1, 2] [SCPQuorumSet 1 [3, 4] []]) ms \<longrightarrow> set ms \<inter> set [1, 2] \<noteq> {}))"
proof -
  have s: "isQuorumSetSane (SCPQuorumSet 2 [1, 2] [SCPQuorumSet 1 [3, 4] []]) False" by code_simp
  show ?thesis using s isVBlocking_iff_meets_all_slices[OF s, of "[1, 2]"] by blast
qed

text \<open>
  Property C7. \<^verbatim>\<open>isQuorum\<close> returns true exactly when some set of nodes, all of them accepted by the
  filter and each with a slice of its own quorum set inside the set, satisfies the given quorum set.
  The loop that drops nodes always ends, and it ends with the greatest such set.
\<close>

theorem isQuorum_correct:
  "isQuorum qSet m qfun filt \<longleftrightarrow>
     (\<exists>U \<subseteq> set (filterNodes m filt).
        (\<forall>n \<in> U. \<exists>q. qset_in m qfun n = Some q \<and> sat U q) \<and> sat U qSet)"
  unfolding isQuorum_iff sustained_def by (rule refl)

text \<open>The same theorem has a bounded quantifier; a three-node map in which all nodes agree is a quorum.\<close>

theorem isQuorum_correct_witness:
  "isQuorum (SCPQuorumSet 2 [1, 2, 3] []) [(1, True), (2, True), (3, False)]
     (\<lambda>_. Some (SCPQuorumSet 2 [1, 2, 3] [])) (\<lambda>b. b) \<and>
   (\<exists>U \<subseteq> set (filterNodes [(1, True), (2, True), (3, False)] (\<lambda>b. b)).
      (\<forall>n \<in> U. \<exists>q. qset_in [(1, True), (2, True), (3, False)] (\<lambda>_. Some (SCPQuorumSet 2 [1, 2, 3] [])) n = Some q
         \<and> sat U q) \<and> sat U (SCPQuorumSet 2 [1, 2, 3] []))"
proof -
  have q: "isQuorum (SCPQuorumSet 2 [1, 2, 3] []) [(1, True), (2, True), (3, False)]
      (\<lambda>_. Some (SCPQuorumSet 2 [1, 2, 3] [])) (\<lambda>b. b)" by code_simp
  show ?thesis using q isQuorum_correct[of "SCPQuorumSet 2 [1, 2, 3] []"
      "[(1, True), (2, True), (3, False)]" "\<lambda>_. Some (SCPQuorumSet 2 [1, 2, 3] [])" "\<lambda>b. b"] by blast
qed

text \<open>
  Property C13. \<^verbatim>\<open>normalizeQSet\<close> with no node to remove does not change which sets of nodes are slices,
  keeps a sane quorum set sane, and is idempotent: its result is a normal form.
\<close>

theorem normalizeQSet_correct:
  "(isQuorumSlice (normalizeQSet q None) ns \<longleftrightarrow> isQuorumSlice q ns) \<and>
   (isQuorumSetSane q extra \<longrightarrow> isQuorumSetSane (normalizeQSet q None) extra) \<and>
   normalizeQSet (normalizeQSet q None) None = normalizeQSet q None"
  unfolding isQuorumSlice_def isQuorumSliceInternal_sat
  using sat_normalizeQSet sane_normalizeQSet normalizeQSet_idem by blast

theorem normalizeQSet_correct_witness:
  "normalizeQSet (SCPQuorumSet 2 [5, 1] [SCPQuorumSet 1 [3] []]) None = SCPQuorumSet 2 [1, 3, 5] [] \<and>
   isQuorumSetSane (SCPQuorumSet 2 [5, 1] [SCPQuorumSet 1 [3] []]) False \<and>
   isQuorumSetSane (normalizeQSet (SCPQuorumSet 2 [5, 1] [SCPQuorumSet 1 [3] []]) None) False"
proof -
  have s: "isQuorumSetSane (SCPQuorumSet 2 [5, 1] [SCPQuorumSet 1 [3] []]) False" by code_simp
  have n: "normalizeQSet (SCPQuorumSet 2 [5, 1] [SCPQuorumSet 1 [3] []]) None = SCPQuorumSet 2 [1, 3, 5] []"
    by code_simp
  show ?thesis
    using s n normalizeQSet_correct[of "SCPQuorumSet 2 [5, 1] [SCPQuorumSet 1 [3] []]" "[]" False] by blast
qed

end
