(* ===== verification/Ballot.thy ===== *)
theory Ballot
  imports QuorumSpec
begin

text \<open>
  Ballots and statements: the data of \<^verbatim>\<open>DiamNet-SCP.x\<close> and the pure helper functions of
  \<^verbatim>\<open>src/scp/BallotProtocol.cpp\<close> on them (comparison and compatibility of ballots, the order of
  statements, what a statement says about prepared and committed ballots, its values and its quorum
  set hash). A ballot is ordered by counter and then by value, which is the order of
  \<^verbatim>\<open>std::set<SCPBallot>\<close> as well.
\<close>

section \<open>Ballots\<close>

datatype SCPBallot = SCPBallot (counter: uint32) (bvalue: val)

definition compareBallots :: "SCPBallot \<Rightarrow> SCPBallot \<Rightarrow> int" where
  "compareBallots b1 b2 =
     (if counter b1 < counter b2 then -1
      else if counter b2 < counter b1 then 1
      else if bvalue b1 < bvalue b2 then -1
      else if bvalue b2 < bvalue b1 then 1
      else 0)"

definition compareBallotPtrs :: "SCPBallot option \<Rightarrow> SCPBallot option \<Rightarrow> int" where
  "compareBallotPtrs b1 b2 =
     (case (b1, b2) of
        (Some x, Some y) \<Rightarrow> compareBallots x y
      | (Some x, None) \<Rightarrow> 1
      | (None, Some y) \<Rightarrow> -1
      | (None, None) \<Rightarrow> 0)"

definition areBallotsCompatible :: "SCPBallot \<Rightarrow> SCPBallot \<Rightarrow> bool" where
  "areBallotsCompatible b1 b2 \<longleftrightarrow> bvalue b1 = bvalue b2"

definition areBallotsLessAndIncompatible :: "SCPBallot \<Rightarrow> SCPBallot \<Rightarrow> bool" where
  "areBallotsLessAndIncompatible b1 b2 \<longleftrightarrow> compareBallots b1 b2 \<le> 0 \<and> \<not> areBallotsCompatible b1 b2"

definition areBallotsLessAndCompatible :: "SCPBallot \<Rightarrow> SCPBallot \<Rightarrow> bool" where
  "areBallotsLessAndCompatible b1 b2 \<longleftrightarrow> compareBallots b1 b2 \<le> 0 \<and> areBallotsCompatible b1 b2"

interpretation ballots: comparator compareBallots
proof
  fix a b c :: SCPBallot
  show "compareBallots a b = 0 \<longleftrightarrow> a = b"
    by (cases a; cases b) (auto simp: compareBallots_def)
  show "compareBallots b a = - compareBallots a b"
    by (auto simp: compareBallots_def)
  show "compareBallots a b < 0 \<Longrightarrow> compareBallots b c < 0 \<Longrightarrow> compareBallots a c < 0"
    by (auto simp: compareBallots_def split: if_splits)
qed

interpretation ballotptrs: comparator compareBallotPtrs
proof
  fix a b c :: "SCPBallot option"
  show "compareBallotPtrs a b = 0 \<longleftrightarrow> a = b"
    by (auto simp: compareBallotPtrs_def ballots.cmp_eq split: option.splits)
  show "compareBallotPtrs b a = - compareBallotPtrs a b"
    by (cases a; cases b) (simp_all add: compareBallotPtrs_def, rule ballots.cmp_sym)
  show "compareBallotPtrs a b < 0 \<Longrightarrow> compareBallotPtrs b c < 0 \<Longrightarrow> compareBallotPtrs a c < 0"
    by (cases a; cases b; cases c) (simp_all add: compareBallotPtrs_def, rule ballots.cmp_trans)
qed

instantiation SCPBallot :: linorder
begin

definition less_SCPBallot :: "SCPBallot \<Rightarrow> SCPBallot \<Rightarrow> bool" where
  "less_SCPBallot b1 b2 \<longleftrightarrow> compareBallots b1 b2 < 0"

definition less_eq_SCPBallot :: "SCPBallot \<Rightarrow> SCPBallot \<Rightarrow> bool" where
  "less_eq_SCPBallot b1 b2 \<longleftrightarrow> compareBallots b1 b2 \<le> 0"

instance
proof
  fix x y z :: SCPBallot
  show "x < y \<longleftrightarrow> x \<le> y \<and> \<not> y \<le> x"
    using ballots.cmp_sym[of x y] unfolding less_SCPBallot_def less_eq_SCPBallot_def by linarith
  show "x \<le> x"
    by (simp add: less_eq_SCPBallot_def ballots.cmp_refl)
  show "x \<le> y \<Longrightarrow> y \<le> z \<Longrightarrow> x \<le> z"
    unfolding less_eq_SCPBallot_def by (rule ballots.cmp_le_trans)
  show "x \<le> y \<Longrightarrow> y \<le> x \<Longrightarrow> x = y"
    unfolding less_eq_SCPBallot_def by (rule ballots.cmp_le_antisym)
  show "x \<le> y \<or> y \<le> x"
    using ballots.cmp_sym[of x y] unfolding less_eq_SCPBallot_def by linarith
qed

end

text \<open>Reading the comparison function as the order, and the order field by field.\<close>

lemma compareBallots_order:
  "compareBallots a b < 0 \<longleftrightarrow> a < b"
  "compareBallots a b \<le> 0 \<longleftrightarrow> a \<le> b"
  "compareBallots a b > 0 \<longleftrightarrow> b < a"
  "compareBallots a b \<ge> 0 \<longleftrightarrow> b \<le> a"
  "compareBallots a b = 0 \<longleftrightarrow> a = b"
  using ballots.cmp_sym[of a b] ballots.cmp_eq[of a b]
  unfolding less_SCPBallot_def less_eq_SCPBallot_def by linarith+

lemma ballot_less_iff:
  "a < b \<longleftrightarrow> counter a < counter b \<or> counter a = counter b \<and> bvalue a < bvalue b"
  by (auto simp: less_SCPBallot_def compareBallots_def)

lemma ballot_le_iff:
  "a \<le> b \<longleftrightarrow> counter a < counter b \<or> counter a = counter b \<and> bvalue a \<le> bvalue b"
  by (cases a; cases b) (auto simp: le_less ballot_less_iff)

lemma ballot_le_counter: "a \<le> b \<Longrightarrow> counter a \<le> counter b"
  by (auto simp: ballot_le_iff)

lemma lessCompatible_iff:
  "areBallotsLessAndCompatible a b \<longleftrightarrow> counter a \<le> counter b \<and> bvalue a = bvalue b"
  by (auto simp: areBallotsLessAndCompatible_def areBallotsCompatible_def compareBallots_order ballot_le_iff)

lemma lessIncompatible_iff:
  "areBallotsLessAndIncompatible a b \<longleftrightarrow> a < b \<and> bvalue a \<noteq> bvalue b"
  by (auto simp: areBallotsLessAndIncompatible_def areBallotsCompatible_def compareBallots_order le_less)

section \<open>Statements\<close>

datatype SCPPledges =
  PREPARE (p_quorumSetHash: hash) (p_ballot: SCPBallot) (p_prepared: "SCPBallot option")
    (p_preparedPrime: "SCPBallot option") (p_nC: uint32) (p_nH: uint32)
| CONFIRM (c_ballot: SCPBallot) (c_nPrepared: uint32) (c_nCommit: uint32) (c_nH: uint32)
    (c_quorumSetHash: hash)
| EXTERNALIZE (e_commit: SCPBallot) (e_nH: uint32) (e_commitQuorumSetHash: hash)
| NOMINATE (n_quorumSetHash: hash) (n_votes: "val list") (n_accepted: "val list")

text \<open>\<^verbatim>\<open>SCPStatementType\<close>, as its enumeration values.\<close>

definition pledgesType :: "SCPPledges \<Rightarrow> nat" where
  "pledgesType pl =
     (case pl of PREPARE _ _ _ _ _ _ \<Rightarrow> 0 | CONFIRM _ _ _ _ _ \<Rightarrow> 1 | EXTERNALIZE _ _ _ \<Rightarrow> 2 | NOMINATE _ _ _ \<Rightarrow> 3)"

record SCPStatement =
  nodeID :: node_id
  slotIndex :: uint64
  pledges :: SCPPledges

record SCPEnvelope =
  stmt :: SCPStatement
  signature :: "8 word list"

text \<open>
  The static \<^verbatim>\<open>isNewerStatement\<close>: the type first, then the fields lexicographically. It is called on
  statements of the ballot protocol only; two NOMINATE statements would be read as PREPARE ones, which
  the XDR union rejects by throwing, and are never newer here.
\<close>

fun isNewerPledges :: "SCPPledges \<Rightarrow> SCPPledges \<Rightarrow> bool" where
  "isNewerPledges (EXTERNALIZE _ _ _) (EXTERNALIZE _ _ _) = False"
| "isNewerPledges (CONFIRM ob onP _ onH _) (CONFIRM b nP _ nH _) =
     (let compBallot = compareBallots ob b in
      if compBallot < 0 then True
      else if compBallot = 0 then (if onP = nP then onH < nH else onP < nP)
      else False)"
| "isNewerPledges (PREPARE _ ob op op' _ onH) (PREPARE _ b p p' _ nH) =
     (let compBallot = compareBallots ob b in
      if compBallot < 0 then True
      else if compBallot = 0 then
        (let compBallot = compareBallotPtrs op p in
         if compBallot < 0 then True
         else if compBallot = 0 then
           (let compBallot = compareBallotPtrs op' p' in
            if compBallot < 0 then True
            else if compBallot = 0 then onH < nH
            else False)
         else False)
      else False)"
| "isNewerPledges (NOMINATE _ _ _) (NOMINATE _ _ _) = False"
| "isNewerPledges old new = (pledgesType old < pledgesType new)"

definition isNewerStatement2 :: "SCPStatement \<Rightarrow> SCPStatement \<Rightarrow> bool" where
  "isNewerStatement2 oldst st = isNewerPledges (pledges oldst) (pledges st)"

definition statementBallotCounter :: "SCPStatement \<Rightarrow> uint32" where
  "statementBallotCounter st =
     (case pledges st of
        PREPARE _ b _ _ _ _ \<Rightarrow> counter b
      | CONFIRM b _ _ _ _ \<Rightarrow> counter b
      | _ \<Rightarrow> UINT32_MAX)"

definition hasPreparedBallot :: "SCPBallot \<Rightarrow> SCPStatement \<Rightarrow> bool" where
  "hasPreparedBallot ballot st =
     (case pledges st of
        PREPARE _ _ p p' _ _ \<Rightarrow>
          (case p of Some b \<Rightarrow> areBallotsLessAndCompatible ballot b | None \<Rightarrow> False) \<or>
          (case p' of Some b \<Rightarrow> areBallotsLessAndCompatible ballot b | None \<Rightarrow> False)
      | CONFIRM b nPrepared _ _ _ \<Rightarrow> areBallotsLessAndCompatible ballot (SCPBallot nPrepared (bvalue b))
      | EXTERNALIZE commit _ _ \<Rightarrow> areBallotsCompatible ballot commit
      | NOMINATE _ _ _ \<Rightarrow> False)"

text \<open>The predicate of \<^verbatim>\<open>attemptAcceptPrepared\<close>: does the statement vote to prepare the ballot?\<close>

definition votesPrepare :: "SCPBallot \<Rightarrow> SCPStatement \<Rightarrow> bool" where
  "votesPrepare ballot st =
     (case pledges st of
        PREPARE _ b _ _ _ _ \<Rightarrow> areBallotsLessAndCompatible ballot b
      | CONFIRM b _ _ _ _ \<Rightarrow> areBallotsCompatible ballot b
      | EXTERNALIZE commit _ _ \<Rightarrow> areBallotsCompatible ballot commit
      | NOMINATE _ _ _ \<Rightarrow> False)"

type_synonym Interval = "uint32 \<times> uint32"

definition commitPredicate :: "SCPBallot \<Rightarrow> Interval \<Rightarrow> SCPStatement \<Rightarrow> bool" where
  "commitPredicate ballot check st =
     (case pledges st of
        PREPARE _ _ _ _ _ _ \<Rightarrow> False
      | CONFIRM b _ nCommit nH _ \<Rightarrow>
          (if areBallotsCompatible ballot b then nCommit \<le> fst check \<and> snd check \<le> nH else False)
      | EXTERNALIZE commit _ _ \<Rightarrow>
          (if areBallotsCompatible ballot commit then counter commit \<le> fst check else False)
      | NOMINATE _ _ _ \<Rightarrow> False)"

text \<open>The predicate of \<^verbatim>\<open>attemptAcceptCommit\<close>: does the statement vote to commit the interval?\<close>

definition votesCommit :: "SCPBallot \<Rightarrow> Interval \<Rightarrow> SCPStatement \<Rightarrow> bool" where
  "votesCommit ballot cur st =
     (case pledges st of
        PREPARE _ b _ _ nC nH \<Rightarrow>
          (if areBallotsCompatible ballot b then
             (if nC \<noteq> 0 then nC \<le> fst cur \<and> snd cur \<le> nH else False)
           else False)
      | CONFIRM b _ nCommit _ _ \<Rightarrow>
          (if areBallotsCompatible ballot b then nCommit \<le> fst cur else False)
      | EXTERNALIZE commit _ _ \<Rightarrow>
          (if areBallotsCompatible ballot commit then counter commit \<le> fst cur else False)
      | NOMINATE _ _ _ \<Rightarrow> False)"

definition getCompanionQuorumSetHashFromStatement :: "SCPStatement \<Rightarrow> hash" where
  "getCompanionQuorumSetHashFromStatement st =
     (case pledges st of
        PREPARE h _ _ _ _ _ \<Rightarrow> h
      | CONFIRM _ _ _ _ h \<Rightarrow> h
      | EXTERNALIZE _ _ h \<Rightarrow> h
      | NOMINATE h _ _ \<Rightarrow> h)"

text \<open>The default ballot (counter 0, empty value) is the initial value of the C++ variable.\<close>

abbreviation emptyBallot :: SCPBallot where
  "emptyBallot \<equiv> SCPBallot 0 []"

definition getWorkingBallot :: "SCPStatement \<Rightarrow> SCPBallot" where
  "getWorkingBallot st =
     (case pledges st of
        PREPARE _ b _ _ _ _ \<Rightarrow> b
      | CONFIRM b _ nCommit _ _ \<Rightarrow> SCPBallot nCommit (bvalue b)
      | EXTERNALIZE commit _ _ \<Rightarrow> commit
      | NOMINATE _ _ _ \<Rightarrow> emptyBallot)"

definition getBallotStatementValues :: "SCPStatement \<Rightarrow> val list" where
  "getBallotStatementValues st =
     (case pledges st of
        PREPARE _ b p p' _ _ \<Rightarrow>
          (let values = (if counter b \<noteq> 0 then set_insert (bvalue b) [] else []);
               values = (case p of Some x \<Rightarrow> set_insert (bvalue x) values | None \<Rightarrow> values)
           in case p' of Some x \<Rightarrow> set_insert (bvalue x) values | None \<Rightarrow> values)
      | CONFIRM b _ _ _ _ \<Rightarrow> set_insert (bvalue b) []
      | EXTERNALIZE commit _ _ \<Rightarrow> set_insert (bvalue commit) []
      | NOMINATE _ _ _ \<Rightarrow> [])"

section \<open>The order of statements\<close>

lemma isNewerPledges_type: "isNewerPledges a b \<Longrightarrow> pledgesType a \<le> pledgesType b"
  by (cases "(a, b)" rule: isNewerPledges.cases) (auto simp: pledgesType_def)

lemma isNewerPledges_irrefl: "\<not> isNewerPledges a a"
  by (cases a) (auto simp: ballots.cmp_refl ballotptrs.cmp_refl)

lemma isNewer_prepare_iff:
  "isNewerPledges (PREPARE oh ob op op' onC onH) (PREPARE h b p p' nC nH) \<longleftrightarrow>
     ob < b \<or> ob = b \<and> (compareBallotPtrs op p < 0 \<or> op = p \<and> (compareBallotPtrs op' p' < 0 \<or> op' = p' \<and> onH < nH))"
  using ballots.cmp_eq[of ob b] ballotptrs.cmp_eq[of op p] ballotptrs.cmp_eq[of op' p']
  by (auto simp: Let_def compareBallots_order)

lemma isNewer_confirm_iff:
  "isNewerPledges (CONFIRM ob onP onC onH oh) (CONFIRM b nP nC nH h) \<longleftrightarrow>
     ob < b \<or> ob = b \<and> (onP < nP \<or> onP = nP \<and> onH < nH)"
  by (auto simp: Let_def compareBallots_order)

lemma isNewer_prepare_trans:
  assumes "isNewerPledges (PREPARE h1 b1 p1 q1 c1 n1) (PREPARE h2 b2 p2 q2 c2 n2)"
    and "isNewerPledges (PREPARE h2 b2 p2 q2 c2 n2) (PREPARE h3 b3 p3 q3 c3 n3)"
  shows "isNewerPledges (PREPARE h1 b1 p1 q1 c1 n1) (PREPARE h3 b3 p3 q3 c3 n3)"
  using assms less_trans[of b1 b2 b3] ballotptrs.cmp_trans[of p1 p2 p3] ballotptrs.cmp_trans[of q1 q2 q3]
    less_trans[of n1 n2 n3]
  unfolding isNewer_prepare_iff by (elim disjE conjE) simp_all

lemma isNewer_confirm_trans:
  assumes "isNewerPledges (CONFIRM b1 p1 c1 n1 h1) (CONFIRM b2 p2 c2 n2 h2)"
    and "isNewerPledges (CONFIRM b2 p2 c2 n2 h2) (CONFIRM b3 p3 c3 n3 h3)"
  shows "isNewerPledges (CONFIRM b1 p1 c1 n1 h1) (CONFIRM b3 p3 c3 n3 h3)"
  using assms less_trans[of b1 b2 b3] less_trans[of p1 p2 p3] less_trans[of n1 n2 n3]
  unfolding isNewer_confirm_iff by (elim disjE conjE) simp_all

lemma isNewerPledges_trans:
  assumes ab: "isNewerPledges a b" and bc: "isNewerPledges b c"
  shows "isNewerPledges a c"
proof (cases "pledgesType a = pledgesType c")
  case False
  then have "pledgesType a < pledgesType c"
    using isNewerPledges_type[OF ab] isNewerPledges_type[OF bc] by linarith
  then show ?thesis
    by (cases "(a, c)" rule: isNewerPledges.cases) (auto simp: pledgesType_def)
next
  case True
  then have "pledgesType a = pledgesType b"
    using isNewerPledges_type[OF ab] isNewerPledges_type[OF bc] by linarith
  with True ab bc show ?thesis
    by (cases a; cases b; cases c)
      (auto simp: pledgesType_def simp del: isNewerPledges.simps(2,3)
        intro: isNewer_prepare_trans isNewer_confirm_trans)
qed

lemma isNewerPledges_asym: "isNewerPledges a b \<Longrightarrow> \<not> isNewerPledges b a"
  using isNewerPledges_trans isNewerPledges_irrefl by blast

end
