(* ===== verification/SlotState.thy ===== *)
theory SlotState
  imports Ballot
begin

text \<open>
  The state of a slot (\<^verbatim>\<open>src/scp/Slot.h\<close>, with the members of \<^verbatim>\<open>BallotProtocol\<close> and
  \<^verbatim>\<open>NominationProtocol\<close>), the interface to the driver (\<^verbatim>\<open>src/scp/SCPDriver.h\<close>), and the helper
  functions of \<^verbatim>\<open>src/scp/Slot.cpp\<close> the two protocols share: recording statements, creating
  envelopes, finding quorum sets, federated voting.
\<close>

section \<open>The driver\<close>

datatype ValidationLevel = kInvalidValue | kMaybeValidValue | kFullyValidatedValue

fun levelNum :: "ValidationLevel \<Rightarrow> nat" where
  "levelNum kInvalidValue = 0"
| "levelNum kMaybeValidValue = 1"
| "levelNum kFullyValidatedValue = 2"

text \<open>
  The pure virtual functions of \<^verbatim>\<open>SCPDriver\<close> and the data of \<^verbatim>\<open>LocalNode\<close> are a record of parameters.
  The implementation of the driver decides them; nothing is assumed about them here.
\<close>

record SCPDriver =
  localNodeID :: node_id
  isValidator :: bool
  localQSet :: SCPQuorumSet
  localQSetHash :: hash
  getQSet :: "hash \<Rightarrow> SCPQuorumSet option"
  validateValue :: "uint64 \<Rightarrow> val \<Rightarrow> bool \<Rightarrow> ValidationLevel"
  extractValidValue :: "uint64 \<Rightarrow> val \<Rightarrow> val option"
  combineCandidates :: "uint64 \<Rightarrow> val list \<Rightarrow> val option"
  computeHashNode :: "uint64 \<Rightarrow> val \<Rightarrow> bool \<Rightarrow> int \<Rightarrow> node_id \<Rightarrow> uint64"
  computeValueHash :: "uint64 \<Rightarrow> val \<Rightarrow> int \<Rightarrow> val \<Rightarrow> uint64"
  signEnvelope :: "SCPStatement \<Rightarrow> 8 word list"

definition MAX_TIMEOUT_SECONDS :: int where
  "MAX_TIMEOUT_SECONDS = 30 * 60"

text \<open>\<^verbatim>\<open>computeTimeout\<close>, in seconds.\<close>

definition computeTimeout :: "uint32 \<Rightarrow> int" where
  "computeTimeout roundNumber =
     (if uint roundNumber > MAX_TIMEOUT_SECONDS then MAX_TIMEOUT_SECONDS else uint roundNumber)"

text \<open>
  The calls the protocol makes to the driver for their effect, in order. A timer is set up with its
  timeout in seconds, or cancelled.
\<close>

datatype timerID = NOMINATION_TIMER | BALLOT_PROTOCOL_TIMER

datatype driver_call =
  EmitEnvelope SCPEnvelope
| SetupTimer timerID int
| StopTimer timerID
| ValueExternalized val
| NominatingValue val
| UpdatedCandidateValue val
| StartedBallotProtocol SCPBallot
| AcceptedBallotPrepared SCPBallot
| ConfirmedBallotPrepared SCPBallot
| AcceptedCommit SCPBallot
| BallotDidHearFromQuorum SCPBallot

section \<open>The slot\<close>

datatype SCPPhase = SCP_PHASE_PREPARE | SCP_PHASE_CONFIRM | SCP_PHASE_EXTERNALIZE

fun phaseNum :: "SCPPhase \<Rightarrow> nat" where
  "phaseNum SCP_PHASE_PREPARE = 0"
| "phaseNum SCP_PHASE_CONFIRM = 1"
| "phaseNum SCP_PHASE_EXTERNALIZE = 2"

datatype EnvelopeState = INVALID | VALID

record Nomination =
  mRoundNumber :: int
  mVotes :: "val list"
  mAccepted :: "val list"
  mCandidates :: "val list"
  mLatestNominations :: "(node_id \<times> SCPEnvelope) list"
  mLastNomEnvelope :: "SCPEnvelope option"
  mRoundLeaders :: "node_id list"
  mNominationStarted :: bool
  mLatestCompositeCandidate :: "val option"
  mPreviousValue :: val

record Slot =
  mSlotIndex :: uint64
  mStatementsHistory :: "(SCPStatement \<times> bool) list"
  mFullyValidated :: bool
  mHeardFromQuorum :: bool
  mCurrentBallot :: "SCPBallot option"
  mPrepared :: "SCPBallot option"
  mPreparedPrime :: "SCPBallot option"
  mHighBallot :: "SCPBallot option"
  mCommit :: "SCPBallot option"
  mLatestEnvelopes :: "(node_id \<times> SCPEnvelope) list"
  mPhase :: SCPPhase
  mValueOverride :: "val option"
  mCurrentMessageLevel :: nat
  mLastEnvelope :: "SCPEnvelope option"
  mLastEnvelopeEmit :: "SCPEnvelope option"
  mNomination :: Nomination
  mDriverCalls :: "driver_call list"

definition newNomination :: Nomination where
  "newNomination =
     \<lparr> mRoundNumber = 0, mVotes = [], mAccepted = [], mCandidates = [], mLatestNominations = [],
       mLastNomEnvelope = None, mRoundLeaders = [], mNominationStarted = False,
       mLatestCompositeCandidate = None, mPreviousValue = [] \<rparr>"

definition newSlot :: "SCPDriver \<Rightarrow> uint64 \<Rightarrow> Slot" where
  "newSlot drv i =
     \<lparr> mSlotIndex = i, mStatementsHistory = [], mFullyValidated = isValidator drv,
       mHeardFromQuorum = False, mCurrentBallot = None, mPrepared = None, mPreparedPrime = None,
       mHighBallot = None, mCommit = None, mLatestEnvelopes = [], mPhase = SCP_PHASE_PREPARE,
       mValueOverride = None, mCurrentMessageLevel = 0, mLastEnvelope = None,
       mLastEnvelopeEmit = None, mNomination = newNomination, mDriverCalls = [] \<rparr>"

text \<open>
  How an operation fails: the exceptions the sources throw, the \<^verbatim>\<open>dbgAssert\<close>s, each with its place,
  the dereference of an empty pointer, and the overflow of the 32-bit round number, which is undefined in
  the source. The last two constructors stand for a run that does not
  end: they are shown not to occur.
\<close>

datatype scp_error =
  MaxTransitions
| MovedToBadState
| CannotSetState
| BadSlotIndex
| AbortNominate
| NullDeref
| AssertCurrentMonotone
| AssertBumpAfterExternalize
| AssertBumpMonotone
| AssertBallotCounter
| AssertPreparedPrime
| AssertHighNeedsCurrent
| AssertHighBelowCurrent
| AssertCommitNeedsCurrent
| AssertCommitBelowHigh
| AssertPhaseCommit
| AssertPhaseHigh
| AssertAcceptCompatible
| AssertClearCommitPhase
| AssertCommitUnset
| AssertPreviousValue
| AssertWeight
| AssertValidator
| RoundOverflow
| OutOfFuel
| Diverges

type_synonym 'a res = "scp_error + 'a \<times> Slot"

definition logCall :: "driver_call \<Rightarrow> Slot \<Rightarrow> Slot" where
  "logCall c s = s\<lparr>mDriverCalls := mDriverCalls s @ [c]\<rparr>"

section \<open>Slot helpers\<close>

definition recordStatement :: "SCPStatement \<Rightarrow> Slot \<Rightarrow> Slot" where
  "recordStatement st s =
     s\<lparr>mStatementsHistory := mStatementsHistory s @ [(st, mFullyValidated s)]\<rparr>"

definition setFullyValidated :: "bool \<Rightarrow> Slot \<Rightarrow> Slot" where
  "setFullyValidated b s = s\<lparr>mFullyValidated := b\<rparr>"

definition createEnvelope :: "SCPDriver \<Rightarrow> Slot \<Rightarrow> SCPPledges \<Rightarrow> SCPEnvelope" where
  "createEnvelope drv s pl =
     (let mySt = \<lparr> nodeID = localNodeID drv, slotIndex = mSlotIndex s, pledges = pl \<rparr>
      in \<lparr> stmt = mySt, signature = signEnvelope drv mySt \<rparr>)"

definition getQuorumSetFromStatement :: "SCPDriver \<Rightarrow> SCPStatement \<Rightarrow> SCPQuorumSet option" where
  "getQuorumSetFromStatement drv st =
     (case pledges st of
        EXTERNALIZE _ _ _ \<Rightarrow> Some (buildSingletonQSet (nodeID st))
      | PREPARE h _ _ _ _ _ \<Rightarrow> getQSet drv h
      | CONFIRM _ _ _ _ h \<Rightarrow> getQSet drv h
      | NOMINATE h _ _ \<Rightarrow> getQSet drv h)"

definition federatedAccept ::
  "SCPDriver \<Rightarrow> (SCPStatement \<Rightarrow> bool) \<Rightarrow> (SCPStatement \<Rightarrow> bool) \<Rightarrow> (node_id \<times> SCPEnvelope) list \<Rightarrow> bool"
where
  "federatedAccept drv voted accepted envs =
     (if isVBlockingFilter (localQSet drv) envs (\<lambda>e. accepted (stmt e)) then True
      else isQuorum (localQSet drv) envs (\<lambda>e. getQuorumSetFromStatement drv (stmt e))
             (\<lambda>e. accepted (stmt e) \<or> voted (stmt e)))"

definition federatedRatify ::
  "SCPDriver \<Rightarrow> (SCPStatement \<Rightarrow> bool) \<Rightarrow> (node_id \<times> SCPEnvelope) list \<Rightarrow> bool"
where
  "federatedRatify drv voted envs =
     isQuorum (localQSet drv) envs (\<lambda>e. getQuorumSetFromStatement drv (stmt e)) (\<lambda>e. voted (stmt e))"

definition stopNomination :: "Slot \<Rightarrow> Slot" where
  "stopNomination s = s\<lparr>mNomination := (mNomination s)\<lparr>mNominationStarted := False\<rparr>\<rparr>"

end
