(* ===== verification/BallotProtocol.thy ===== *)
theory BallotProtocol
  imports SlotState
begin

text \<open>
  The ballot protocol: every operation of \<^verbatim>\<open>src/scp/BallotProtocol.cpp\<close> that reads or changes the
  state, in the order of the source. Processing an envelope may make the node emit statements that it
  processes in turn; the operations that emit take the function \<open>proc\<close> that processes a statement of
  the node itself, and \<open>processEnvelopeN\<close> at the end ties the knot with a bound on the nesting.
  A \<^verbatim>\<open>dbgAssert\<close> that fails and an exception are \<^term>\<open>Inl\<close> results.
\<close>

section \<open>Statements and envelopes\<close>

definition isNewerStatement :: "node_id \<Rightarrow> SCPStatement \<Rightarrow> Slot \<Rightarrow> bool" where
  "isNewerStatement n st s =
     (case omap_find (mLatestEnvelopes s) n of
        None \<Rightarrow> True
      | Some old \<Rightarrow> isNewerStatement2 (stmt old) st)"

definition recordEnvelope :: "SCPEnvelope \<Rightarrow> Slot \<Rightarrow> Slot" where
  "recordEnvelope env s =
     recordStatement (stmt env)
       (s\<lparr>mLatestEnvelopes := omap_insert (nodeID (stmt env)) env (mLatestEnvelopes s)\<rparr>)"

definition isStatementSane :: "SCPDriver \<Rightarrow> SCPStatement \<Rightarrow> bool \<Rightarrow> scp_error + bool" where
  "isStatementSane drv st self =
     (if \<not> (case getQuorumSetFromStatement drv st of Some q \<Rightarrow> isQuorumSetSane q False | None \<Rightarrow> False)
      then Inr False
      else case pledges st of
        PREPARE _ b p p' nC nH \<Rightarrow>
          Inr ((self \<or> counter b > 0) \<and>
               (case (p', p) of (Some x', Some x) \<Rightarrow> areBallotsLessAndIncompatible x' x | _ \<Rightarrow> True) \<and>
               (nH = 0 \<or> (case p of Some x \<Rightarrow> nH \<le> counter x | None \<Rightarrow> False)) \<and>
               (nC = 0 \<or> (nH \<noteq> 0 \<and> counter b \<ge> nH \<and> nH \<ge> nC)))
      | CONFIRM b _ nCommit nH _ \<Rightarrow>
          Inr (counter b > 0 \<and> nH \<le> counter b \<and> nCommit \<le> nH)
      | EXTERNALIZE commit nH _ \<Rightarrow>
          Inr (counter commit > 0 \<and> nH \<ge> counter commit)
      | NOMINATE _ _ _ \<Rightarrow> Inl AbortNominate)"

definition minLevel :: "ValidationLevel \<Rightarrow> ValidationLevel \<Rightarrow> ValidationLevel" where
  "minLevel a b = (if levelNum b < levelNum a then b else a)"

definition validateValues :: "SCPDriver \<Rightarrow> Slot \<Rightarrow> SCPStatement \<Rightarrow> ValidationLevel" where
  "validateValues drv s st =
     (let values = getBallotStatementValues st in
      if values = [] then kInvalidValue
      else foldl (\<lambda>lv v. if levelNum lv > levelNum kInvalidValue
                          then minLevel (validateValue drv (mSlotIndex s) v False) lv else lv)
             kFullyValidatedValue values)"

section \<open>The current ballot\<close>

definition bumpToBallot :: "SCPBallot \<Rightarrow> bool \<Rightarrow> Slot \<Rightarrow> unit res" where
  "bumpToBallot ballot check s =
     (if mPhase s = SCP_PHASE_EXTERNALIZE then Inl AssertBumpAfterExternalize
      else if check \<and> (case mCurrentBallot s of Some b \<Rightarrow> \<not> compareBallots ballot b \<ge> 0 | None \<Rightarrow> False)
      then Inl AssertBumpMonotone
      else
        let gotBumped = (case mCurrentBallot s of None \<Rightarrow> True | Some b \<Rightarrow> counter b \<noteq> counter ballot);
            s = (if mCurrentBallot s = None then logCall (StartedBallotProtocol ballot) s else s);
            s = s\<lparr>mCurrentBallot := Some ballot\<rparr>;
            s = (if (case mHighBallot s of Some h \<Rightarrow> \<not> areBallotsCompatible ballot h | None \<Rightarrow> False)
                 then s\<lparr>mHighBallot := None, mCommit := None\<rparr> else s);
            s = (if gotBumped then s\<lparr>mHeardFromQuorum := False\<rparr> else s)
        in Inr ((), s))"

definition updateCurrentIfNeeded :: "SCPBallot \<Rightarrow> Slot \<Rightarrow> bool res" where
  "updateCurrentIfNeeded h s =
     (if (case mCurrentBallot s of None \<Rightarrow> True | Some b \<Rightarrow> compareBallots b h < 0)
      then bindE (bumpToBallot h True s) (\<lambda>_ s. Inr (True, s))
      else Inr (False, s))"

text \<open>
  The two assertions on \<^verbatim>\<open>h\<close> and \<^verbatim>\<open>b\<close> under \<^verbatim>\<open>if (mCommit)\<close> repeat the ones under \<^verbatim>\<open>if (mHighBallot)\<close>;
  an empty \<^verbatim>\<open>h\<close> there is dereferenced.
\<close>

definition checkInvariants :: "Slot \<Rightarrow> unit res" where
  "checkInvariants s =
     (if (case mCurrentBallot s of Some b \<Rightarrow> counter b = 0 | None \<Rightarrow> False) then Inl AssertBallotCounter
      else if (case (mPrepared s, mPreparedPrime s) of
                 (Some p, Some p') \<Rightarrow> \<not> areBallotsLessAndIncompatible p' p | _ \<Rightarrow> False)
      then Inl AssertPreparedPrime
      else if mHighBallot s \<noteq> None \<and> mCurrentBallot s = None then Inl AssertHighNeedsCurrent
      else if (case (mHighBallot s, mCurrentBallot s) of
                 (Some h, Some b) \<Rightarrow> \<not> areBallotsLessAndCompatible h b | _ \<Rightarrow> False)
      then Inl AssertHighBelowCurrent
      else if mCommit s \<noteq> None \<and> mCurrentBallot s = None then Inl AssertCommitNeedsCurrent
      else if mCommit s \<noteq> None \<and> mHighBallot s = None then Inl NullDeref
      else if (case (mCommit s, mHighBallot s) of
                 (Some c, Some h) \<Rightarrow> \<not> areBallotsLessAndCompatible c h | _ \<Rightarrow> False)
      then Inl AssertCommitBelowHigh
      else case mPhase s of
        SCP_PHASE_PREPARE \<Rightarrow> Inr ((), s)
      | SCP_PHASE_CONFIRM \<Rightarrow> if mCommit s = None then Inl AssertPhaseCommit else Inr ((), s)
      | SCP_PHASE_EXTERNALIZE \<Rightarrow>
          if mCommit s = None then Inl AssertPhaseCommit
          else if mHighBallot s = None then Inl AssertPhaseHigh else Inr ((), s))"

definition updateCurrentValue :: "SCPBallot \<Rightarrow> Slot \<Rightarrow> bool res" where
  "updateCurrentValue ballot s =
     (if mPhase s \<noteq> SCP_PHASE_PREPARE \<and> mPhase s \<noteq> SCP_PHASE_CONFIRM then Inr (False, s)
      else case mCurrentBallot s of
        None \<Rightarrow>
          bindE (bumpToBallot ballot True s) (\<lambda>_ s.
          bindE (checkInvariants s) (\<lambda>_ s. Inr (True, s)))
      | Some b \<Rightarrow>
          if \<not> compareBallots b ballot \<le> 0 then Inl AssertCurrentMonotone
          else if (case mCommit s of Some c \<Rightarrow> \<not> areBallotsCompatible c ballot | None \<Rightarrow> False)
          then Inr (False, s)
          else
            let cmp = compareBallots b ballot in
            if cmp < 0 then
              bindE (bumpToBallot ballot True s) (\<lambda>_ s.
              bindE (checkInvariants s) (\<lambda>_ s. Inr (True, s)))
            else if cmp > 0 then Inr (False, s)
            else bindE (checkInvariants s) (\<lambda>_ s. Inr (False, s)))"

section \<open>Emitting statements\<close>

text \<open>
  The source compares the pointers to the two envelopes. The last envelope is replaced only by a newer
  statement, so different pointers are different envelopes.
\<close>

definition sendLatestEnvelope :: "Slot \<Rightarrow> Slot" where
  "sendLatestEnvelope s =
     (case mLastEnvelope s of
        None \<Rightarrow> s
      | Some e \<Rightarrow>
          if mCurrentMessageLevel s = 0 \<and> mFullyValidated s \<and> mLastEnvelopeEmit s \<noteq> Some e
          then logCall (EmitEnvelope e) (s\<lparr>mLastEnvelopeEmit := Some e\<rparr>)
          else s)"

definition ballotCounter :: "SCPBallot option \<Rightarrow> uint32" where
  "ballotCounter b = (case b of Some x \<Rightarrow> counter x | None \<Rightarrow> 0)"

text \<open>The pledges of \<^verbatim>\<open>createStatement\<close>, for the statement type that goes with the phase.\<close>

definition createPledges :: "SCPDriver \<Rightarrow> Slot \<Rightarrow> scp_error + SCPPledges" where
  "createPledges drv s =
     (case mPhase s of
        SCP_PHASE_PREPARE \<Rightarrow>
          Inr (PREPARE (localQSetHash drv)
                 (case mCurrentBallot s of Some b \<Rightarrow> b | None \<Rightarrow> emptyBallot)
                 (mPrepared s) (mPreparedPrime s)
                 (ballotCounter (mCommit s)) (ballotCounter (mHighBallot s)))
      | SCP_PHASE_CONFIRM \<Rightarrow>
          (case (mCurrentBallot s, mPrepared s, mCommit s, mHighBallot s) of
             (Some b, Some p, Some c, Some h) \<Rightarrow>
               Inr (CONFIRM b (counter p) (counter c) (counter h) (localQSetHash drv))
           | _ \<Rightarrow> Inl NullDeref)
      | SCP_PHASE_EXTERNALIZE \<Rightarrow>
          (case (mCommit s, mHighBallot s) of
             (Some c, Some h) \<Rightarrow> Inr (EXTERNALIZE c (counter h) (localQSetHash drv))
           | _ \<Rightarrow> Inl NullDeref))"

definition createStatement :: "SCPDriver \<Rightarrow> Slot \<Rightarrow> scp_error + SCPPledges" where
  "createStatement drv s =
     (case checkInvariants s of Inl e \<Rightarrow> Inl e | Inr _ \<Rightarrow> createPledges drv s)"

type_synonym self_proc = "SCPEnvelope \<Rightarrow> Slot \<Rightarrow> EnvelopeState res"

definition emitCurrentStateStatement :: "SCPDriver \<Rightarrow> self_proc \<Rightarrow> Slot \<Rightarrow> unit res" where
  "emitCurrentStateStatement drv proc s =
     (case createStatement drv s of
        Inl e \<Rightarrow> Inl e
      | Inr pl \<Rightarrow>
          let envelope = createEnvelope drv s pl;
              canEmit = (mCurrentBallot s \<noteq> None)
          in
          if omap_find (mLatestEnvelopes s) (localNodeID drv) \<noteq> Some envelope then
            bindE (proc envelope s) (\<lambda>r s.
              if r = VALID then
                (if canEmit \<and> (case mLastEnvelope s of
                                  None \<Rightarrow> True
                                | Some l \<Rightarrow> isNewerStatement2 (stmt l) (stmt envelope))
                 then Inr ((), sendLatestEnvelope (s\<lparr>mLastEnvelope := Some envelope\<rparr>))
                 else Inr ((), s))
              else Inl MovedToBadState)
          else Inr ((), s))"

section \<open>Hearing from a quorum\<close>

definition checkHeardFromQuorum :: "SCPDriver \<Rightarrow> Slot \<Rightarrow> Slot" where
  "checkHeardFromQuorum drv s =
     (case mCurrentBallot s of
        None \<Rightarrow> s
      | Some b \<Rightarrow>
          if isQuorum (localQSet drv) (mLatestEnvelopes s)
               (\<lambda>e. getQuorumSetFromStatement drv (stmt e))
               (\<lambda>e. case pledges (stmt e) of
                      PREPARE _ pb _ _ _ _ \<Rightarrow> counter b \<le> counter pb
                    | _ \<Rightarrow> True)
          then
            let oldHQ = mHeardFromQuorum s;
                s = s\<lparr>mHeardFromQuorum := True\<rparr>;
                s = (if \<not> oldHQ then
                       let s = logCall (BallotDidHearFromQuorum b) s in
                       if mPhase s \<noteq> SCP_PHASE_EXTERNALIZE
                       then logCall (SetupTimer BALLOT_PROTOCOL_TIMER (computeTimeout (counter b))) s
                       else s
                     else s)
            in if mPhase s = SCP_PHASE_EXTERNALIZE then logCall (StopTimer BALLOT_PROTOCOL_TIMER) s else s
          else logCall (StopTimer BALLOT_PROTOCOL_TIMER) (s\<lparr>mHeardFromQuorum := False\<rparr>))"

section \<open>Bumping the ballot\<close>

definition bumpStateTo :: "SCPDriver \<Rightarrow> self_proc \<Rightarrow> val \<Rightarrow> uint32 \<Rightarrow> Slot \<Rightarrow> bool res" where
  "bumpStateTo drv proc v n s =
     (if mPhase s \<noteq> SCP_PHASE_PREPARE \<and> mPhase s \<noteq> SCP_PHASE_CONFIRM then Inr (False, s)
      else
        let newb = SCPBallot n (case mValueOverride s of Some z \<Rightarrow> z | None \<Rightarrow> v) in
        bindE (updateCurrentValue newb s) (\<lambda>updated s.
          if updated then
            bindE (emitCurrentStateStatement drv proc s) (\<lambda>_ s. Inr (True, checkHeardFromQuorum drv s))
          else Inr (False, s)))"

definition bumpState :: "SCPDriver \<Rightarrow> self_proc \<Rightarrow> val \<Rightarrow> bool \<Rightarrow> Slot \<Rightarrow> bool res" where
  "bumpState drv proc v force s =
     (if \<not> force \<and> mCurrentBallot s \<noteq> None then Inr (False, s)
      else bumpStateTo drv proc v
             (case mCurrentBallot s of Some b \<Rightarrow> counter b + 1 | None \<Rightarrow> 1) s)"

definition abandonBallot :: "SCPDriver \<Rightarrow> self_proc \<Rightarrow> uint32 \<Rightarrow> Slot \<Rightarrow> bool res" where
  "abandonBallot drv proc n s =
     (let v = mLatestCompositeCandidate (mNomination s);
          v = (if v = None \<or> v = Some [] then
                 (case mCurrentBallot s of Some b \<Rightarrow> Some (bvalue b) | None \<Rightarrow> v)
               else v)
      in case v of
           None \<Rightarrow> Inr (False, s)
         | Some x \<Rightarrow>
             if x = [] then Inr (False, s)
             else if n = 0 then bumpState drv proc x True s
             else bumpStateTo drv proc x n s)"

definition ballotProtocolTimerExpired :: "SCPDriver \<Rightarrow> self_proc \<Rightarrow> Slot \<Rightarrow> unit res" where
  "ballotProtocolTimerExpired drv proc s =
     bindE (abandonBallot drv proc 0 s) (\<lambda>_ s. Inr ((), s))"

section \<open>Accepting and confirming prepared ballots\<close>

definition hintBallots :: "SCPStatement \<Rightarrow> SCPBallot list" where
  "hintBallots hint =
     (case pledges hint of
        PREPARE _ b p p' _ _ \<Rightarrow>
          (let hs = set_insert b [];
               hs = (case p of Some x \<Rightarrow> set_insert x hs | None \<Rightarrow> hs)
           in case p' of Some x \<Rightarrow> set_insert x hs | None \<Rightarrow> hs)
      | CONFIRM b nPrepared _ _ _ \<Rightarrow>
          set_insert (SCPBallot UINT32_MAX (bvalue b)) (set_insert (SCPBallot nPrepared (bvalue b)) [])
      | EXTERNALIZE commit _ _ \<Rightarrow> set_insert (SCPBallot UINT32_MAX (bvalue commit)) []
      | NOMINATE _ _ _ \<Rightarrow> [])"

definition addPrepareCandidates :: "SCPBallot \<Rightarrow> SCPStatement \<Rightarrow> SCPBallot list \<Rightarrow> SCPBallot list" where
  "addPrepareCandidates topVote st candidates =
     (case pledges st of
        PREPARE _ b p p' _ _ \<Rightarrow>
          (let cs = (if areBallotsLessAndCompatible b topVote then set_insert b candidates else candidates);
               cs = (case p of
                       Some x \<Rightarrow> if areBallotsLessAndCompatible x topVote then set_insert x cs else cs
                     | None \<Rightarrow> cs)
           in case p' of
                Some x \<Rightarrow> if areBallotsLessAndCompatible x topVote then set_insert x cs else cs
              | None \<Rightarrow> cs)
      | CONFIRM b nPrepared _ _ _ \<Rightarrow>
          (if areBallotsCompatible topVote b then
             (let cs = set_insert topVote candidates in
              if nPrepared < counter topVote
              then set_insert (SCPBallot nPrepared (bvalue topVote)) cs else cs)
           else candidates)
      | EXTERNALIZE commit _ _ \<Rightarrow>
          (if areBallotsCompatible topVote commit then set_insert topVote candidates else candidates)
      | NOMINATE _ _ _ \<Rightarrow> candidates)"

text \<open>The hints are taken from the highest down; each one scans the latest statements in order.\<close>

definition getPrepareCandidates :: "SCPStatement \<Rightarrow> Slot \<Rightarrow> SCPBallot list" where
  "getPrepareCandidates hint s =
     fold (\<lambda>topVote cs. fold (\<lambda>(n, e). addPrepareCandidates topVote (stmt e)) (mLatestEnvelopes s) cs)
       (rev (hintBallots hint)) []"

definition setPrepared :: "SCPBallot \<Rightarrow> Slot \<Rightarrow> bool \<times> Slot" where
  "setPrepared ballot s =
     (case mPrepared s of
        Some p \<Rightarrow>
          (let cmp = compareBallots p ballot in
           if cmp < 0 then
             (let s = (if \<not> areBallotsCompatible p ballot then s\<lparr>mPreparedPrime := Some p\<rparr> else s)
              in (True, s\<lparr>mPrepared := Some ballot\<rparr>))
           else if cmp > 0 then
             (if (case mPreparedPrime s of
                    None \<Rightarrow> True
                  | Some p' \<Rightarrow> compareBallots p' ballot < 0 \<and> \<not> areBallotsCompatible p ballot)
              then (True, s\<lparr>mPreparedPrime := Some ballot\<rparr>)
              else (False, s))
           else (False, s))
      | None \<Rightarrow> (True, s\<lparr>mPrepared := Some ballot\<rparr>))"

definition lessIncompatiblePtr :: "SCPBallot \<Rightarrow> SCPBallot option \<Rightarrow> bool" where
  "lessIncompatiblePtr b p = (case p of Some x \<Rightarrow> areBallotsLessAndIncompatible b x | None \<Rightarrow> False)"

definition setAcceptPrepared :: "SCPDriver \<Rightarrow> self_proc \<Rightarrow> SCPBallot \<Rightarrow> Slot \<Rightarrow> bool res" where
  "setAcceptPrepared drv proc ballot s =
     (let (didWork, s) = setPrepared ballot s in
      bindE
        (case (mCommit s, mHighBallot s) of
           (Some c, Some h) \<Rightarrow>
             if lessIncompatiblePtr h (mPrepared s) \<or> lessIncompatiblePtr h (mPreparedPrime s) then
               (if mPhase s = SCP_PHASE_PREPARE then Inr (True, s\<lparr>mCommit := None\<rparr>)
                else Inl AssertClearCommitPhase)
             else Inr (didWork, s)
         | _ \<Rightarrow> Inr (didWork, s))
        (\<lambda>didWork s.
          if didWork then
            bindE (emitCurrentStateStatement drv proc (logCall (AcceptedBallotPrepared ballot) s))
              (\<lambda>_ s. Inr (True, s))
          else Inr (False, s)))"

text \<open>Whether the loop of \<^verbatim>\<open>attemptAcceptPrepared\<close> skips a candidate (its \<^verbatim>\<open>continue\<close>s).\<close>

definition skipAcceptPrepared :: "SCPBallot \<Rightarrow> Slot \<Rightarrow> scp_error + bool" where
  "skipAcceptPrepared ballot s =
     (let rest =
        (case mPreparedPrime s of Some p' \<Rightarrow> compareBallots ballot p' \<le> 0 | None \<Rightarrow> False) \<or>
        (case mPrepared s of Some p \<Rightarrow> areBallotsLessAndCompatible ballot p | None \<Rightarrow> False)
      in
      if mPhase s = SCP_PHASE_CONFIRM then
        (case mPrepared s of
           None \<Rightarrow> Inl NullDeref
         | Some p \<Rightarrow>
             if \<not> areBallotsLessAndCompatible p ballot then Inr True
             else case mCommit s of
               None \<Rightarrow> Inl NullDeref
             | Some c \<Rightarrow> if \<not> areBallotsCompatible c ballot then Inl AssertAcceptCompatible else Inr rest)
      else Inr rest)"

fun acceptPreparedLoop :: "SCPDriver \<Rightarrow> self_proc \<Rightarrow> SCPBallot list \<Rightarrow> Slot \<Rightarrow> bool res" where
  "acceptPreparedLoop drv proc [] s = Inr (False, s)"
| "acceptPreparedLoop drv proc (ballot # cs) s =
     (case skipAcceptPrepared ballot s of
        Inl e \<Rightarrow> Inl e
      | Inr True \<Rightarrow> acceptPreparedLoop drv proc cs s
      | Inr False \<Rightarrow>
          if federatedAccept drv (votesPrepare ballot) (hasPreparedBallot ballot) (mLatestEnvelopes s)
          then setAcceptPrepared drv proc ballot s
          else acceptPreparedLoop drv proc cs s)"

definition attemptAcceptPrepared :: "SCPDriver \<Rightarrow> self_proc \<Rightarrow> SCPStatement \<Rightarrow> Slot \<Rightarrow> bool res" where
  "attemptAcceptPrepared drv proc hint s =
     (if mPhase s \<noteq> SCP_PHASE_PREPARE \<and> mPhase s \<noteq> SCP_PHASE_CONFIRM then Inr (False, s)
      else acceptPreparedLoop drv proc (rev (getPrepareCandidates hint s)) s)"

text \<open>
  The first loop of \<^verbatim>\<open>attemptConfirmPrepared\<close> looks for the new \<^verbatim>\<open>h\<close>, from the highest candidate
  down; it returns the candidates from there on. The second one looks for the lowest ratified \<^verbatim>\<open>c\<close>.
\<close>

fun findNewH :: "SCPDriver \<Rightarrow> Slot \<Rightarrow> SCPBallot list \<Rightarrow> SCPBallot list option" where
  "findNewH drv s [] = None"
| "findNewH drv s (ballot # cs) =
     (if (case mHighBallot s of Some h \<Rightarrow> compareBallots h ballot \<ge> 0 | None \<Rightarrow> False) then None
      else if federatedRatify drv (hasPreparedBallot ballot) (mLatestEnvelopes s) then Some (ballot # cs)
      else findNewH drv s cs)"

fun findNewC :: "SCPDriver \<Rightarrow> Slot \<Rightarrow> SCPBallot \<Rightarrow> SCPBallot \<Rightarrow> SCPBallot \<Rightarrow> SCPBallot list \<Rightarrow> SCPBallot" where
  "findNewC drv s b newH newC [] = newC"
| "findNewC drv s b newH newC (ballot # cs) =
     (if compareBallots ballot b < 0 then newC
      else if \<not> areBallotsLessAndCompatible ballot newH then findNewC drv s b newH newC cs
      else if federatedRatify drv (hasPreparedBallot ballot) (mLatestEnvelopes s)
      then findNewC drv s b newH ballot cs
      else newC)"

definition setConfirmPrepared :: "SCPDriver \<Rightarrow> self_proc \<Rightarrow> SCPBallot \<Rightarrow> SCPBallot \<Rightarrow> Slot \<Rightarrow> bool res" where
  "setConfirmPrepared drv proc newC newH s =
     (let s = s\<lparr>mValueOverride := Some (bvalue newH)\<rparr> in
      bindE
        (if (case mCurrentBallot s of None \<Rightarrow> True | Some b \<Rightarrow> areBallotsCompatible b newH) then
           let (didWork, s) =
                 (if (case mHighBallot s of None \<Rightarrow> True | Some h \<Rightarrow> compareBallots newH h > 0)
                  then (True, s\<lparr>mHighBallot := Some newH\<rparr>) else (False, s))
           in
           bindE
             (if counter newC \<noteq> 0 then
                (if mCommit s \<noteq> None then Inl AssertCommitUnset
                 else Inr (True, s\<lparr>mCommit := Some newC\<rparr>))
              else Inr (didWork, s))
             (\<lambda>didWork s.
               Inr (didWork, if didWork then logCall (ConfirmedBallotPrepared newH) s else s))
         else Inr (False, s))
        (\<lambda>didWork s.
          bindE (updateCurrentIfNeeded newH s) (\<lambda>updated s.
            if updated \<or> didWork then
              bindE (emitCurrentStateStatement drv proc s) (\<lambda>_ s. Inr (True, s))
            else Inr (False, s))))"

definition attemptConfirmPrepared :: "SCPDriver \<Rightarrow> self_proc \<Rightarrow> SCPStatement \<Rightarrow> Slot \<Rightarrow> bool res" where
  "attemptConfirmPrepared drv proc hint s =
     (if mPhase s \<noteq> SCP_PHASE_PREPARE then Inr (False, s)
      else if mPrepared s = None then Inr (False, s)
      else case findNewH drv s (rev (getPrepareCandidates hint s)) of
        None \<Rightarrow> Inr (False, s)
      | Some cs \<Rightarrow>
          let newH = hd cs;
              b = (case mCurrentBallot s of Some b \<Rightarrow> b | None \<Rightarrow> emptyBallot);
              newC =
                (if mCommit s = None \<and> \<not> lessIncompatiblePtr newH (mPrepared s) \<and>
                    \<not> lessIncompatiblePtr newH (mPreparedPrime s)
                 then findNewC drv s b newH emptyBallot cs else emptyBallot)
          in setConfirmPrepared drv proc newC newH s)"

section \<open>Accepting and confirming commits\<close>

fun extendInterval :: "(Interval \<Rightarrow> bool) \<Rightarrow> Interval \<Rightarrow> uint32 list \<Rightarrow> Interval" where
  "extendInterval pred candidate [] = candidate"
| "extendInterval pred candidate (b # bs) =
     (if fst candidate \<noteq> 0 \<and> b > snd candidate then extendInterval pred candidate bs
      else
        let cur = (if fst candidate = 0 then (b, b) else (b, snd candidate)) in
        if pred cur then extendInterval pred cur bs
        else if fst candidate \<noteq> 0 then candidate
        else extendInterval pred candidate bs)"

text \<open>The boundaries are a set, scanned from the highest down.\<close>

definition findExtendedInterval :: "Interval \<Rightarrow> uint32 list \<Rightarrow> (Interval \<Rightarrow> bool) \<Rightarrow> Interval" where
  "findExtendedInterval candidate boundaries pred = extendInterval pred candidate (rev boundaries)"

definition addCommitBoundaries :: "SCPBallot \<Rightarrow> SCPStatement \<Rightarrow> uint32 list \<Rightarrow> uint32 list" where
  "addCommitBoundaries ballot st res =
     (case pledges st of
        PREPARE _ b _ _ nC nH \<Rightarrow>
          (if areBallotsCompatible ballot b \<and> nC \<noteq> 0 then set_insert nH (set_insert nC res) else res)
      | CONFIRM b _ nCommit nH _ \<Rightarrow>
          (if areBallotsCompatible ballot b then set_insert nH (set_insert nCommit res) else res)
      | EXTERNALIZE commit nH _ \<Rightarrow>
          (if areBallotsCompatible ballot commit
           then set_insert UINT32_MAX (set_insert nH (set_insert (counter commit) res)) else res)
      | NOMINATE _ _ _ \<Rightarrow> res)"

definition getCommitBoundariesFromStatements :: "SCPBallot \<Rightarrow> Slot \<Rightarrow> uint32 list" where
  "getCommitBoundariesFromStatements ballot s =
     fold (\<lambda>(n, e). addCommitBoundaries ballot (stmt e)) (mLatestEnvelopes s) []"

definition setAcceptCommit :: "SCPDriver \<Rightarrow> self_proc \<Rightarrow> SCPBallot \<Rightarrow> SCPBallot \<Rightarrow> Slot \<Rightarrow> bool res" where
  "setAcceptCommit drv proc c h s =
     (let s = s\<lparr>mValueOverride := Some (bvalue h)\<rparr>;
          (didWork, s) =
            (if mHighBallot s \<noteq> Some h \<or> mCommit s \<noteq> Some c
             then (True, s\<lparr>mCommit := Some c, mHighBallot := Some h\<rparr>) else (False, s))
      in
      bindE
        (if mPhase s = SCP_PHASE_PREPARE then
           let s = s\<lparr>mPhase := SCP_PHASE_CONFIRM\<rparr> in
           bindE
             (if (case mCurrentBallot s of Some b \<Rightarrow> \<not> areBallotsLessAndCompatible h b | None \<Rightarrow> False)
              then bumpToBallot h False s else Inr ((), s))
             (\<lambda>_ s. Inr (True, s\<lparr>mPreparedPrime := None\<rparr>))
         else Inr (didWork, s))
        (\<lambda>didWork s.
          if didWork then
            (case mHighBallot s of
               None \<Rightarrow> Inl NullDeref
             | Some h' \<Rightarrow>
                 bindE (updateCurrentIfNeeded h' s) (\<lambda>_ s.
                 bindE (emitCurrentStateStatement drv proc (logCall (AcceptedCommit h) s)) (\<lambda>_ s.
                 Inr (True, s))))
          else Inr (False, s)))"

text \<open>The value a statement may commit; a PREPARE statement votes to commit when \<^verbatim>\<open>nC\<close> is set.\<close>

definition acceptCommitHint :: "SCPStatement \<Rightarrow> SCPBallot option" where
  "acceptCommitHint hint =
     (case pledges hint of
        PREPARE _ b _ _ nC nH \<Rightarrow> (if nC \<noteq> 0 then Some (SCPBallot nH (bvalue b)) else None)
      | CONFIRM b _ _ nH _ \<Rightarrow> Some (SCPBallot nH (bvalue b))
      | EXTERNALIZE commit nH _ \<Rightarrow> Some (SCPBallot nH (bvalue commit))
      | NOMINATE _ _ _ \<Rightarrow> None)"

definition attemptAcceptCommit :: "SCPDriver \<Rightarrow> self_proc \<Rightarrow> SCPStatement \<Rightarrow> Slot \<Rightarrow> bool res" where
  "attemptAcceptCommit drv proc hint s =
     (if mPhase s \<noteq> SCP_PHASE_PREPARE \<and> mPhase s \<noteq> SCP_PHASE_CONFIRM then Inr (False, s)
      else case acceptCommitHint hint of
        None \<Rightarrow> Inr (False, s)
      | Some ballot \<Rightarrow>
          if mPhase s = SCP_PHASE_CONFIRM \<and> mHighBallot s = None then Inl NullDeref
          else if mPhase s = SCP_PHASE_CONFIRM \<and>
                  (case mHighBallot s of Some h \<Rightarrow> \<not> areBallotsCompatible ballot h | None \<Rightarrow> False)
          then Inr (False, s)
          else
            let pred = (\<lambda>cur. federatedAccept drv (votesCommit ballot cur) (commitPredicate ballot cur)
                                (mLatestEnvelopes s));
                boundaries = getCommitBoundariesFromStatements ballot s
            in
            if boundaries = [] then Inr (False, s)
            else
              let candidate = findExtendedInterval (0, 0) boundaries pred in
              if fst candidate \<noteq> 0 \<and>
                 (mPhase s \<noteq> SCP_PHASE_CONFIRM \<or>
                  (case mHighBallot s of Some h \<Rightarrow> snd candidate > counter h | None \<Rightarrow> False))
              then setAcceptCommit drv proc (SCPBallot (fst candidate) (bvalue ballot))
                     (SCPBallot (snd candidate) (bvalue ballot)) s
              else Inr (False, s))"

definition setConfirmCommit :: "SCPDriver \<Rightarrow> self_proc \<Rightarrow> SCPBallot \<Rightarrow> SCPBallot \<Rightarrow> Slot \<Rightarrow> bool res" where
  "setConfirmCommit drv proc c h s =
     bindE (updateCurrentIfNeeded h (s\<lparr>mCommit := Some c, mHighBallot := Some h\<rparr>)) (\<lambda>_ s.
     bindE (emitCurrentStateStatement drv proc (s\<lparr>mPhase := SCP_PHASE_EXTERNALIZE\<rparr>)) (\<lambda>_ s.
     let s = stopNomination s in
     case mCommit s of
       None \<Rightarrow> Inl NullDeref
     | Some c \<Rightarrow> Inr (True, logCall (ValueExternalized (bvalue c)) s)))"

definition confirmCommitHint :: "SCPStatement \<Rightarrow> SCPBallot option" where
  "confirmCommitHint hint =
     (case pledges hint of
        PREPARE _ _ _ _ _ _ \<Rightarrow> None
      | CONFIRM b _ _ nH _ \<Rightarrow> Some (SCPBallot nH (bvalue b))
      | EXTERNALIZE commit nH _ \<Rightarrow> Some (SCPBallot nH (bvalue commit))
      | NOMINATE _ _ _ \<Rightarrow> None)"

definition attemptConfirmCommit :: "SCPDriver \<Rightarrow> self_proc \<Rightarrow> SCPStatement \<Rightarrow> Slot \<Rightarrow> bool res" where
  "attemptConfirmCommit drv proc hint s =
     (if mPhase s \<noteq> SCP_PHASE_CONFIRM then Inr (False, s)
      else case (mHighBallot s, mCommit s, confirmCommitHint hint) of
        (Some h, Some c, Some ballot) \<Rightarrow>
          if \<not> areBallotsCompatible ballot c then Inr (False, s)
          else
            let boundaries = getCommitBoundariesFromStatements ballot s;
                pred = (\<lambda>cur. federatedRatify drv (commitPredicate ballot cur) (mLatestEnvelopes s));
                candidate = findExtendedInterval (0, 0) boundaries pred
            in
            if fst candidate \<noteq> 0
            then setConfirmCommit drv proc (SCPBallot (fst candidate) (bvalue ballot))
                   (SCPBallot (snd candidate) (bvalue ballot)) s
            else Inr (False, s)
      | _ \<Rightarrow> Inr (False, s))"

section \<open>Catching up with the counters of others\<close>

definition hasVBlockingSubsetStrictlyAheadOf ::
  "SCPDriver \<Rightarrow> (node_id \<times> SCPEnvelope) list \<Rightarrow> uint32 \<Rightarrow> bool"
where
  "hasVBlockingSubsetStrictlyAheadOf drv m n =
     isVBlockingFilter (localQSet drv) m (\<lambda>e. statementBallotCounter (stmt e) > n)"

definition allCounters :: "(node_id \<times> SCPEnvelope) list \<Rightarrow> uint32 \<Rightarrow> uint32 list" where
  "allCounters m localCounter =
     fold (\<lambda>(n, e) cs. let c = statementBallotCounter (stmt e) in
                        if c > localCounter then set_insert c cs else cs) m []"

definition attemptBump :: "SCPDriver \<Rightarrow> self_proc \<Rightarrow> Slot \<Rightarrow> bool res" where
  "attemptBump drv proc s =
     (if mPhase s = SCP_PHASE_PREPARE \<or> mPhase s = SCP_PHASE_CONFIRM then
        let localCounter = ballotCounter (mCurrentBallot s) in
        if \<not> hasVBlockingSubsetStrictlyAheadOf drv (mLatestEnvelopes s) localCounter then Inr (False, s)
        else
          case find (\<lambda>n. \<not> hasVBlockingSubsetStrictlyAheadOf drv (mLatestEnvelopes s) n)
                 (allCounters (mLatestEnvelopes s) localCounter) of
            Some n \<Rightarrow> abandonBallot drv proc n s
          | None \<Rightarrow> Inr (False, s)
      else Inr (False, s))"

section \<open>Advancing the slot\<close>

text \<open>
  The do-while loop around \<^verbatim>\<open>attemptBump\<close>; \<^term>\<open>None\<close> is a loop that does not end. The result says
  whether any iteration bumped.
\<close>

partial_function (option) bumpLoop ::
  "SCPDriver \<Rightarrow> self_proc \<Rightarrow> bool \<Rightarrow> Slot \<Rightarrow> (scp_error + bool \<times> Slot) option"
where
  "bumpLoop drv proc didWork s =
     (case attemptBump drv proc s of
        Inl e \<Rightarrow> Some (Inl e)
      | Inr (didBump, s') \<Rightarrow>
          if didBump then bumpLoop drv proc True s' else Some (Inr (didWork, s')))"

declare bumpLoop.simps [code]

definition MAX_ADVANCE_SLOT_RECURSION :: nat where
  "MAX_ADVANCE_SLOT_RECURSION = 50"

definition advanceSlot :: "SCPDriver \<Rightarrow> self_proc \<Rightarrow> SCPStatement \<Rightarrow> Slot \<Rightarrow> unit res" where
  "advanceSlot drv proc hint s =
     (let s = s\<lparr>mCurrentMessageLevel := mCurrentMessageLevel s + 1\<rparr> in
      if mCurrentMessageLevel s \<ge> MAX_ADVANCE_SLOT_RECURSION then Inl MaxTransitions
      else
        bindE (attemptAcceptPrepared drv proc hint s) (\<lambda>w1 s.
        bindE (attemptConfirmPrepared drv proc hint s) (\<lambda>w2 s.
        bindE (attemptAcceptCommit drv proc hint s) (\<lambda>w3 s.
        bindE (attemptConfirmCommit drv proc hint s) (\<lambda>w4 s.
        let didWork = w1 \<or> w2 \<or> w3 \<or> w4 in
        bindE
          (if mCurrentMessageLevel s = 1 then
             bindE (case bumpLoop drv proc didWork s of None \<Rightarrow> Inl Diverges | Some r \<Rightarrow> r)
               (\<lambda>didWork s. Inr (didWork, checkHeardFromQuorum drv s))
           else Inr (didWork, s))
          (\<lambda>didWork s.
            let s = s\<lparr>mCurrentMessageLevel := mCurrentMessageLevel s - 1\<rparr>
            in Inr ((), if didWork then sendLatestEnvelope s else s)))))))"

text \<open>\<^verbatim>\<open>processEnvelope\<close>, with the function that processes the statements the node emits.\<close>

definition processEnvelopeWith ::
  "SCPDriver \<Rightarrow> self_proc \<Rightarrow> SCPEnvelope \<Rightarrow> bool \<Rightarrow> Slot \<Rightarrow> EnvelopeState res"
where
  "processEnvelopeWith drv proc envelope self s =
     (let statement = stmt envelope in
      if slotIndex statement \<noteq> mSlotIndex s then Inl BadSlotIndex
      else case isStatementSane drv statement self of
        Inl e \<Rightarrow> Inl e
      | Inr sane \<Rightarrow>
          if \<not> sane then Inr (INVALID, s)
          else if \<not> isNewerStatement (nodeID statement) statement s then Inr (INVALID, s)
          else
            let validationRes = validateValues drv s statement in
            if validationRes = kInvalidValue then Inr (INVALID, s)
            else if mPhase s \<noteq> SCP_PHASE_EXTERNALIZE then
              let s = (if validationRes = kMaybeValidValue then setFullyValidated False s else s);
                  s = recordEnvelope envelope s
              in bindE (advanceSlot drv proc statement s) (\<lambda>_ s. Inr (VALID, s))
            else case mCommit s of
              None \<Rightarrow> Inl NullDeref
            | Some c \<Rightarrow>
                if bvalue c = bvalue (getWorkingBallot statement)
                then Inr (VALID, recordEnvelope envelope s)
                else Inr (INVALID, s))"

text \<open>
  The recursion through emitted statements, at most \<open>n\<close> deep. \<open>advanceSlot\<close> throws at level 50, so
  50 levels are enough from any state; running out of them is the error \<^term>\<open>OutOfFuel\<close>.
\<close>

primrec processEnvelopeN :: "nat \<Rightarrow> SCPDriver \<Rightarrow> SCPEnvelope \<Rightarrow> bool \<Rightarrow> Slot \<Rightarrow> EnvelopeState res" where
  "processEnvelopeN 0 drv envelope self s = Inl OutOfFuel"
| "processEnvelopeN (Suc n) drv envelope self s =
     processEnvelopeWith drv (\<lambda>e. processEnvelopeN n drv e True) envelope self s"

definition processBallotEnvelope :: "SCPDriver \<Rightarrow> SCPEnvelope \<Rightarrow> bool \<Rightarrow> Slot \<Rightarrow> EnvelopeState res" where
  "processBallotEnvelope drv envelope self s =
     processEnvelopeN MAX_ADVANCE_SLOT_RECURSION drv envelope self s"

text \<open>The operations the slot offers, over that function.\<close>

definition selfProc :: "SCPDriver \<Rightarrow> self_proc" where
  "selfProc drv e = processBallotEnvelope drv e True"

definition slotBumpState :: "SCPDriver \<Rightarrow> val \<Rightarrow> bool \<Rightarrow> Slot \<Rightarrow> bool res" where
  "slotBumpState drv v force s = bumpState drv (selfProc drv) v force s"

definition slotAbandonBallot :: "SCPDriver \<Rightarrow> Slot \<Rightarrow> bool res" where
  "slotAbandonBallot drv s = abandonBallot drv (selfProc drv) 0 s"

definition slotTimerExpired :: "SCPDriver \<Rightarrow> Slot \<Rightarrow> unit res" where
  "slotTimerExpired drv s = ballotProtocolTimerExpired drv (selfProc drv) s"

section \<open>Restoring the state\<close>

definition setBallotStateFromEnvelope :: "SCPEnvelope \<Rightarrow> Slot \<Rightarrow> unit res" where
  "setBallotStateFromEnvelope e s =
     (if mCurrentBallot s \<noteq> None then Inl CannotSetState
      else
        let s = recordEnvelope e s;
            s = s\<lparr>mLastEnvelope := Some e, mLastEnvelopeEmit := Some e\<rparr>
        in case pledges (stmt e) of
          PREPARE _ b p p' nC nH \<Rightarrow>
            bindE (bumpToBallot b True s) (\<lambda>_ s.
            let s = (if p \<noteq> None then s\<lparr>mPrepared := p\<rparr> else s);
                s = (if p' \<noteq> None then s\<lparr>mPreparedPrime := p'\<rparr> else s);
                s = (if nH \<noteq> 0 then s\<lparr>mHighBallot := Some (SCPBallot nH (bvalue b))\<rparr> else s);
                s = (if nC \<noteq> 0 then s\<lparr>mCommit := Some (SCPBallot nC (bvalue b))\<rparr> else s)
            in Inr ((), s\<lparr>mPhase := SCP_PHASE_PREPARE\<rparr>))
        | CONFIRM b nPrepared nCommit nH _ \<Rightarrow>
            bindE (bumpToBallot b True s) (\<lambda>_ s.
            Inr ((), s\<lparr>mPrepared := Some (SCPBallot nPrepared (bvalue b)),
                       mHighBallot := Some (SCPBallot nH (bvalue b)),
                       mCommit := Some (SCPBallot nCommit (bvalue b)),
                       mPhase := SCP_PHASE_CONFIRM\<rparr>))
        | EXTERNALIZE commit nH _ \<Rightarrow>
            bindE (bumpToBallot (SCPBallot UINT32_MAX (bvalue commit)) True s) (\<lambda>_ s.
            Inr ((), s\<lparr>mPrepared := Some (SCPBallot UINT32_MAX (bvalue commit)),
                       mHighBallot := Some (SCPBallot nH (bvalue commit)),
                       mCommit := Some commit,
                       mPhase := SCP_PHASE_EXTERNALIZE\<rparr>))
        | NOMINATE _ _ _ \<Rightarrow> Inl AbortNominate)"

section \<open>Reading the state\<close>

fun processLatest :: "(SCPEnvelope \<Rightarrow> 'c \<Rightarrow> bool \<times> 'c) \<Rightarrow> (node_id \<times> SCPEnvelope) list \<Rightarrow> (node_id \<Rightarrow> bool) \<Rightarrow> 'c \<Rightarrow> bool \<times> 'c" where
  "processLatest f [] skip c = (True, c)"
| "processLatest f ((n, e) # m) skip c =
     (if skip n then processLatest f m skip c
      else let (ok, c') = f e c in if \<not> ok then (False, c') else processLatest f m skip c')"

definition processBallotState ::
  "SCPDriver \<Rightarrow> (SCPEnvelope \<Rightarrow> 'c \<Rightarrow> bool \<times> 'c) \<Rightarrow> bool \<Rightarrow> Slot \<Rightarrow> 'c \<Rightarrow> bool \<times> 'c"
where
  "processBallotState drv f forceSelf s =
     processLatest f (mLatestEnvelopes s)
       (\<lambda>n. \<not> (forceSelf \<or> n \<noteq> localNodeID drv \<or> mFullyValidated s))"

definition getLatestBallotMessage :: "node_id \<Rightarrow> Slot \<Rightarrow> SCPEnvelope option" where
  "getLatestBallotMessage n s = omap_find (mLatestEnvelopes s) n"

text \<open>The messages that helped to externalize; an empty \<^verbatim>\<open>c\<close> would be dereferenced.\<close>

definition getExternalizingState :: "SCPDriver \<Rightarrow> Slot \<Rightarrow> scp_error + SCPEnvelope list" where
  "getExternalizingState drv s =
     (if mPhase s \<noteq> SCP_PHASE_EXTERNALIZE then Inr []
      else case mCommit s of
        None \<Rightarrow> if (\<exists>(n, e) \<in> set (mLatestEnvelopes s). n \<noteq> localNodeID drv) then Inl NullDeref
                else Inr (if mFullyValidated s then map snd (mLatestEnvelopes s) else [])
      | Some c \<Rightarrow>
          Inr (map snd (filter
                 (\<lambda>(n, e). if n \<noteq> localNodeID drv
                            then areBallotsCompatible (getWorkingBallot (stmt e)) c
                            else mFullyValidated s)
                 (mLatestEnvelopes s))))"

end
