(* ===== verification/BallotInv.thy ===== *)
theory BallotInv
  imports BallotProtocol
begin

text \<open>
  The invariant of the ballot protocol and the relation between the states before and after an
  operation. Every operation of \<open>BallotProtocol\<close> is shown to keep the invariant, to stay within the
  relation, and to fail only in the ways listed in \<open>expected_error\<close>: the other assertions of the
  source hold whatever the other nodes and the driver do.
\<close>

section \<open>The invariant\<close>

lemma ballot_less_counter: "a < b \<Longrightarrow> \<not> counter b < counter a"
  by (auto simp: ballot_less_iff)

definition ballot_le :: "SCPBallot option \<Rightarrow> SCPBallot option \<Rightarrow> bool" where
  "ballot_le x y = (case x of None \<Rightarrow> True | Some a \<Rightarrow> (case y of None \<Rightarrow> False | Some b \<Rightarrow> a \<le> b))"

text \<open>\<open>under x y\<close>: if \<open>x\<close> is set then \<open>y\<close> is, and \<open>x\<close> is at most \<open>y\<close> with the same value.\<close>

definition under :: "SCPBallot option \<Rightarrow> SCPBallot option \<Rightarrow> bool" where
  "under x y =
     (case x of None \<Rightarrow> True
      | Some a \<Rightarrow> (case y of None \<Rightarrow> False | Some b \<Rightarrow> counter a \<le> counter b \<and> bvalue a = bvalue b))"

definition prepared_ok :: "SCPBallot option \<Rightarrow> SCPBallot option \<Rightarrow> bool" where
  "prepared_ok p' p =
     (case p' of None \<Rightarrow> True
      | Some a \<Rightarrow> (case p of None \<Rightarrow> False | Some b \<Rightarrow> a < b \<and> bvalue a \<noteq> bvalue b))"

definition latest_ok :: "(node_id \<times> SCPEnvelope) list \<Rightarrow> bool" where
  "latest_ok m \<longleftrightarrow>
     omap_sorted m \<and> (\<forall>(n, e) \<in> set m. nodeID (stmt e) = n \<and> pledgesType (pledges (stmt e)) < 3)"

text \<open>The part that holds in between, before the statement of the new state is checked.\<close>

definition pre_inv :: "Slot \<Rightarrow> bool" where
  "pre_inv s \<longleftrightarrow>
     prepared_ok (mPreparedPrime s) (mPrepared s) \<and>
     under (mHighBallot s) (mCurrentBallot s) \<and> under (mCommit s) (mHighBallot s) \<and>
     (mPhase s \<noteq> SCP_PHASE_PREPARE \<longrightarrow> mCommit s \<noteq> None \<and> mPreparedPrime s = None) \<and>
     (mPhase s = SCP_PHASE_EXTERNALIZE \<longrightarrow> mPrepared s \<noteq> None) \<and>
     latest_ok (mLatestEnvelopes s)"

definition binv :: "Slot \<Rightarrow> bool" where
  "binv s \<longleftrightarrow>
     pre_inv s \<and> (\<forall>b. mCurrentBallot s = Some b \<longrightarrow> counter b \<noteq> 0) \<and>
     (mPhase s \<noteq> SCP_PHASE_PREPARE \<longrightarrow> mPrepared s \<noteq> None)"

lemma binv_pre: "binv s \<Longrightarrow> pre_inv s"
  by (simp add: binv_def)

lemma binv_newSlot: "binv (newSlot drv i)"
  by (simp add: binv_def pre_inv_def newSlot_def under_def prepared_ok_def latest_ok_def)

lemma ballot_le_simps [simp]:
  "ballot_le None y" "ballot_le (Some a) (Some b) = (a \<le> b)" "\<not> ballot_le (Some a) None" "ballot_le x x"
  by (simp_all add: ballot_le_def split: option.splits)

lemma ballot_le_trans: "ballot_le x y \<Longrightarrow> ballot_le y z \<Longrightarrow> ballot_le x z"
  by (auto simp: ballot_le_def split: option.splits)

lemma under_simps [simp]:
  "under None y" "\<not> under (Some a) None"
  "under (Some a) (Some b) = (counter a \<le> counter b \<and> bvalue a = bvalue b)"
  by (simp_all add: under_def)

lemma prepared_ok_simps [simp]:
  "prepared_ok None p" "\<not> prepared_ok (Some a) None"
  "prepared_ok (Some a) (Some b) = (a < b \<and> bvalue a \<noteq> bvalue b)"
  by (simp_all add: prepared_ok_def)

text \<open>
  \<open>checkInvariants\<close> passes exactly when the invariant's conditions on the ballots hold; before the
  check only the counter of the current ballot can be wrong.
\<close>

lemma checkInvariants_cases:
  assumes "pre_inv s"
  shows "checkInvariants s =
    (case mCurrentBallot s of Some b \<Rightarrow> if counter b = 0 then Inl AssertBallotCounter else Inr ((), s)
     | None \<Rightarrow> Inr ((), s))"
  using assms
  by (cases "mCurrentBallot s"; cases "mHighBallot s"; cases "mCommit s"; cases "mPrepared s";
      cases "mPreparedPrime s"; cases "mPhase s")
    (simp_all add: checkInvariants_def pre_inv_def lessCompatible_iff lessIncompatible_iff)

section \<open>How the state evolves\<close>

text \<open>
  The latest statements change only for the nodes in \<open>X\<close>, and only to newer ones.
\<close>

definition latest_step :: "node_id set \<Rightarrow> (node_id \<times> SCPEnvelope) list \<Rightarrow> (node_id \<times> SCPEnvelope) list \<Rightarrow> bool" where
  "latest_step X m m' \<longleftrightarrow>
     (\<forall>n. n \<notin> X \<longrightarrow> omap_find m' n = omap_find m n) \<and>
     (\<forall>n e. omap_find m n = Some e \<longrightarrow>
        (\<exists>e'. omap_find m' n = Some e' \<and> (e' = e \<or> isNewerStatement2 (stmt e) (stmt e'))))"

text \<open>
  The phase never goes back, the current ballot only grows within a phase, the committed value is fixed
  once a commit is accepted, and nothing changes once a value is externalized.
\<close>

definition core_step :: "Slot \<Rightarrow> Slot \<Rightarrow> bool" where
  "core_step s s' \<longleftrightarrow>
     phaseNum (mPhase s) \<le> phaseNum (mPhase s') \<and>
     (mPhase s' = mPhase s \<longrightarrow> ballot_le (mCurrentBallot s) (mCurrentBallot s')) \<and>
     (mPhase s \<noteq> SCP_PHASE_PREPARE \<longrightarrow> map_option bvalue (mCommit s') = map_option bvalue (mCommit s)) \<and>
     (mPhase s = SCP_PHASE_EXTERNALIZE \<longrightarrow>
        mCurrentBallot s' = mCurrentBallot s \<and> mPrepared s' = mPrepared s \<and>
        mPreparedPrime s' = mPreparedPrime s \<and> mHighBallot s' = mHighBallot s \<and> mCommit s' = mCommit s)"

text \<open>
  A value is externalized only when a quorum has confirmed a commit of it: the statements at that moment
  are the ones in the final state, except for the node's own.
\<close>

definition externalize_justified :: "SCPDriver \<Rightarrow> Slot \<Rightarrow> Slot \<Rightarrow> bool" where
  "externalize_justified drv s s' \<longleftrightarrow>
     (mPhase s \<noteq> SCP_PHASE_EXTERNALIZE \<and> mPhase s' = SCP_PHASE_EXTERNALIZE \<longrightarrow>
       (\<exists>m c h. mCommit s' = Some c \<and> mHighBallot s' = Some h \<and> latest_ok m \<and>
          federatedRatify drv (commitPredicate h (counter c, counter h)) m \<and>
          (\<forall>n. n \<noteq> localNodeID drv \<longrightarrow> omap_find m n = omap_find (mLatestEnvelopes s') n)))"

fun isExternalized :: "driver_call \<Rightarrow> bool" where
  "isExternalized (ValueExternalized v) = True"
| "isExternalized _ = False"

text \<open>The driver is told of the externalized value once, in the step that externalizes it.\<close>

definition calls_step :: "Slot \<Rightarrow> Slot \<Rightarrow> bool" where
  "calls_step s s' \<longleftrightarrow>
     (\<exists>cs. mDriverCalls s' = mDriverCalls s @ cs \<and>
        filter isExternalized cs =
          (if mPhase s \<noteq> SCP_PHASE_EXTERNALIZE \<and> mPhase s' = SCP_PHASE_EXTERNALIZE
           then map ValueExternalized (map bvalue (case mCommit s' of Some c \<Rightarrow> [c] | None \<Rightarrow> []))
           else []))"

text \<open>
  The commit statements of the node: the pledges of the CONFIRM and EXTERNALIZE statements it has handed to
  the driver or is about to. Each one claims the committed value of the state, and a claim made once holds
  in every later state.
\<close>

fun emitted :: "driver_call \<Rightarrow> SCPPledges set" where
  "emitted (EmitEnvelope e) = {pledges (stmt e)}"
| "emitted _ = {}"

definition commits :: "Slot \<Rightarrow> SCPPledges set" where
  "commits s =
     {pl. (pledgesType pl = 1 \<or> pledgesType pl = 2) \<and>
          ((\<exists>c \<in> set (mDriverCalls s). pl \<in> emitted c) \<or> (\<exists>e. mLastEnvelope s = Some e \<and> pl = pledges (stmt e)))}"

definition claim :: "SCPDriver \<Rightarrow> Slot \<Rightarrow> SCPPledges \<Rightarrow> bool" where
  "claim drv s pl =
     (case pl of
        CONFIRM b _ _ _ h \<Rightarrow>
          mPhase s \<noteq> SCP_PHASE_PREPARE \<and> map_option bvalue (mCommit s) = Some (bvalue b) \<and> h = localQSetHash drv
      | EXTERNALIZE c _ _ \<Rightarrow>
          mPhase s = SCP_PHASE_EXTERNALIZE \<and> map_option bvalue (mCommit s) = Some (bvalue c)
      | _ \<Rightarrow> True)"

definition claims :: "SCPDriver \<Rightarrow> Slot \<Rightarrow> bool" where
  "claims drv s \<longleftrightarrow> (\<forall>pl \<in> commits s. claim drv s pl)"

definition bevolves :: "SCPDriver \<Rightarrow> node_id set \<Rightarrow> Slot \<Rightarrow> Slot \<Rightarrow> bool" where
  "bevolves drv X s s' \<longleftrightarrow>
     mSlotIndex s' = mSlotIndex s \<and> mCurrentMessageLevel s' = mCurrentMessageLevel s \<and>
     (mFullyValidated s' \<longrightarrow> mFullyValidated s) \<and>
     latest_step X (mLatestEnvelopes s) (mLatestEnvelopes s') \<and>
     core_step s s' \<and> externalize_justified drv s s' \<and> calls_step s s' \<and> (claims drv s \<longrightarrow> claims drv s')"

text \<open>Of the nomination the ballot protocol changes nothing but to stop it.\<close>

definition nomkeep :: "Slot \<Rightarrow> Slot \<Rightarrow> bool" where
  "nomkeep s s' \<longleftrightarrow>
     mNomination s' = mNomination s \<or> mNomination s' = (mNomination s)\<lparr>mNominationStarted := False\<rparr>"

definition evolves :: "SCPDriver \<Rightarrow> node_id set \<Rightarrow> Slot \<Rightarrow> Slot \<Rightarrow> bool" where
  "evolves drv X s s' \<longleftrightarrow> bevolves drv X s s' \<and> nomkeep s s'"

lemmas evolves_unfold = evolves_def bevolves_def

lemma nomkeep_refl [simp]: "nomkeep s s"
  by (simp add: nomkeep_def)

lemma nomkeep_trans: "nomkeep s s' \<Longrightarrow> nomkeep s' s'' \<Longrightarrow> nomkeep s s''"
  by (auto simp: nomkeep_def)

lemma nomkeep_upd [simp]:
  "nomkeep s (s'\<lparr>mPreparedPrime := x\<rparr>) = nomkeep s s'" "nomkeep s (s'\<lparr>mPhase := ph\<rparr>) = nomkeep s s'"
  "nomkeep s (s'\<lparr>mCurrentMessageLevel := l\<rparr>) = nomkeep s s'"
  "nomkeep (s\<lparr>mCurrentMessageLevel := l\<rparr>) s' = nomkeep s s'" "nomkeep (s\<lparr>mPhase := ph\<rparr>) s' = nomkeep s s'"
  by (simp_all add: nomkeep_def)

lemma nomkeep_same [simp]: "mNomination s' = mNomination s \<Longrightarrow> nomkeep s s'"
  by (simp add: nomkeep_def)

lemma latest_step_refl [simp]: "latest_step X m m"
  by (simp add: latest_step_def)

lemma isNewerStatement2_trans:
  "isNewerStatement2 a b \<Longrightarrow> isNewerStatement2 b c \<Longrightarrow> isNewerStatement2 a c"
  unfolding isNewerStatement2_def by (rule isNewerPledges_trans)

lemma latest_step_trans:
  assumes "latest_step X m m'" "latest_step Y m' m''"
  shows "latest_step (X \<union> Y) m m''"
  unfolding latest_step_def
proof (intro conjI allI impI)
  show "omap_find m'' n = omap_find m n" if "n \<notin> X \<union> Y" for n
    using assms that by (simp add: latest_step_def)
  fix n e assume "omap_find m n = Some e"
  then obtain e' where e': "omap_find m' n = Some e'" "e' = e \<or> isNewerStatement2 (stmt e) (stmt e')"
    using assms(1) unfolding latest_step_def by blast
  then obtain e'' where "omap_find m'' n = Some e''" "e'' = e' \<or> isNewerStatement2 (stmt e') (stmt e'')"
    using assms(2) unfolding latest_step_def by blast
  with e' show "\<exists>e''. omap_find m'' n = Some e'' \<and> (e'' = e \<or> isNewerStatement2 (stmt e) (stmt e''))"
    using isNewerStatement2_trans by blast
qed

lemma phaseNum_inject: "phaseNum a = phaseNum b \<longleftrightarrow> a = b"
  by (cases a; cases b) simp_all

lemma core_step_refl [simp]: "core_step s s"
  by (simp add: core_step_def)

lemma core_step_trans:
  assumes "core_step s s'" "core_step s' s''"
  shows "core_step s s''"
proof -
  have ph: "phaseNum (mPhase s) \<le> phaseNum (mPhase s')" "phaseNum (mPhase s') \<le> phaseNum (mPhase s'')"
    using assms by (simp_all add: core_step_def)
  have mono: "mPhase s' = mPhase s \<and> mPhase s'' = mPhase s'" if "mPhase s'' = mPhase s"
    using ph that by (simp flip: phaseNum_inject)
  have b: "ballot_le (mCurrentBallot s) (mCurrentBallot s'')" if "mPhase s'' = mPhase s"
    using assms mono[OF that] ballot_le_trans unfolding core_step_def by metis
  have np: "mPhase s' \<noteq> SCP_PHASE_PREPARE" if "mPhase s \<noteq> SCP_PHASE_PREPARE"
    using ph that by (cases "mPhase s"; cases "mPhase s'") simp_all
  have ext: "mPhase s' = SCP_PHASE_EXTERNALIZE" if "mPhase s = SCP_PHASE_EXTERNALIZE"
    using ph that by (cases "mPhase s'") simp_all
  show ?thesis
    using assms ph b np ext unfolding core_step_def by simp
qed

lemma calls_step_refl [simp]: "calls_step s s"
  by (simp add: calls_step_def)

lemma core_step_ext: "core_step s s' \<Longrightarrow> mPhase s = SCP_PHASE_EXTERNALIZE \<Longrightarrow> mPhase s' = SCP_PHASE_EXTERNALIZE"
  by (cases "mPhase s'") (simp_all add: core_step_def)

lemma calls_step_trans:
  assumes "core_step s s'" "core_step s' s''" "calls_step s s'" "calls_step s' s''"
  shows "calls_step s s''"
proof -
  obtain cs cs' where cs: "mDriverCalls s' = mDriverCalls s @ cs"
    "filter isExternalized cs =
       (if mPhase s \<noteq> SCP_PHASE_EXTERNALIZE \<and> mPhase s' = SCP_PHASE_EXTERNALIZE
        then map ValueExternalized (map bvalue (case mCommit s' of Some c \<Rightarrow> [c] | None \<Rightarrow> [])) else [])"
    and cs': "mDriverCalls s'' = mDriverCalls s' @ cs'"
    "filter isExternalized cs' =
       (if mPhase s' \<noteq> SCP_PHASE_EXTERNALIZE \<and> mPhase s'' = SCP_PHASE_EXTERNALIZE
        then map ValueExternalized (map bvalue (case mCommit s'' of Some c \<Rightarrow> [c] | None \<Rightarrow> [])) else [])"
    using assms(3,4) unfolding calls_step_def by blast
  show ?thesis
  proof (cases "mPhase s' = SCP_PHASE_EXTERNALIZE")
    case True
    then have "mPhase s'' = SCP_PHASE_EXTERNALIZE" by (rule core_step_ext[OF assms(2)])
    moreover have "mCommit s'' = mCommit s'" using assms(2) True by (simp add: core_step_def)
    ultimately show ?thesis
      unfolding calls_step_def by (intro exI[of _ "cs @ cs'"]) (simp add: cs cs' True)
  next
    case False
    then have "mPhase s \<noteq> SCP_PHASE_EXTERNALIZE" using assms(1) core_step_ext by blast
    then show ?thesis
      unfolding calls_step_def by (intro exI[of _ "cs @ cs'"]) (simp add: cs cs' False)
  qed
qed

lemma claim_step: "core_step s s' \<Longrightarrow> claim drv s pl \<Longrightarrow> claim drv s' pl"
  by (cases pl; cases "mPhase s"; cases "mPhase s'") (simp_all add: claim_def core_step_def)

lemma claims_step: "core_step s s' \<Longrightarrow> commits s' \<subseteq> commits s \<Longrightarrow> claims drv s \<Longrightarrow> claims drv s'"
  unfolding claims_def using claim_step by blast

lemma bevolves_refl [simp, intro]: "bevolves drv X s s"
  by (simp add: bevolves_def externalize_justified_def)

lemma bevolves_trans:
  assumes "bevolves drv X s s'" "bevolves drv {localNodeID drv} s' s''"
  shows "bevolves drv (insert (localNodeID drv) X) s s''"
proof -
  have "latest_step (insert (localNodeID drv) X) (mLatestEnvelopes s) (mLatestEnvelopes s'')"
    using latest_step_trans[of X "mLatestEnvelopes s" "mLatestEnvelopes s'" "{localNodeID drv}"] assms
    by (simp add: bevolves_def)
  moreover have "externalize_justified drv s s''"
  proof (cases "mPhase s' = SCP_PHASE_EXTERNALIZE")
    case True
    have "mCommit s'' = mCommit s'" "mHighBallot s'' = mHighBallot s'"
      using assms(2) True by (simp_all add: bevolves_def core_step_def)
    moreover have "omap_find (mLatestEnvelopes s'') n = omap_find (mLatestEnvelopes s') n"
      if "n \<noteq> localNodeID drv" for n
      using assms(2) that by (simp add: bevolves_def latest_step_def)
    moreover have "externalize_justified drv s s'" using assms(1) by (simp add: bevolves_def)
    ultimately show ?thesis
      using True unfolding externalize_justified_def by metis
  next
    case False
    then show ?thesis using assms unfolding bevolves_def externalize_justified_def by blast
  qed
  ultimately show ?thesis
    using assms core_step_trans[of s s' s''] calls_step_trans[of s s' s''] by (simp add: bevolves_def)
qed

lemma evolves_refl [simp, intro]: "evolves drv X s s"
  by (simp add: evolves_def)

lemma evolves_trans:
  "evolves drv X s s' \<Longrightarrow> evolves drv {localNodeID drv} s' s'' \<Longrightarrow> evolves drv (insert (localNodeID drv) X) s s''"
  unfolding evolves_def using bevolves_trans nomkeep_trans by blast

lemma evolves_local_trans:
  "evolves drv {localNodeID drv} s s' \<Longrightarrow> evolves drv {localNodeID drv} s' s'' \<Longrightarrow>
     evolves drv {localNodeID drv} s s''"
  using evolves_trans[of drv "{localNodeID drv}"] by simp

section \<open>Steps that leave the ballots alone\<close>

definition quiet :: "Slot \<Rightarrow> Slot \<Rightarrow> bool" where
  "quiet s s' \<longleftrightarrow>
     mSlotIndex s' = mSlotIndex s \<and> mFullyValidated s' = mFullyValidated s \<and>
     mCurrentBallot s' = mCurrentBallot s \<and> mPrepared s' = mPrepared s \<and>
     mPreparedPrime s' = mPreparedPrime s \<and> mHighBallot s' = mHighBallot s \<and> mCommit s' = mCommit s \<and>
     mLatestEnvelopes s' = mLatestEnvelopes s \<and> mPhase s' = mPhase s \<and>
     mCurrentMessageLevel s' = mCurrentMessageLevel s \<and> nomkeep s s' \<and> commits s' \<subseteq> commits s \<and>
     (\<exists>cs. mDriverCalls s' = mDriverCalls s @ cs \<and> filter isExternalized cs = [])"

lemma quiet_refl [simp]: "quiet s s"
  by (simp add: quiet_def)

lemma quiet_trans: "quiet s s' \<Longrightarrow> quiet s' s'' \<Longrightarrow> quiet s s''"
  using nomkeep_trans[of s s' s''] subset_trans[of "commits s''"] by (auto simp: quiet_def)

lemma quiet_pre_inv: "quiet s s' \<Longrightarrow> pre_inv s' = pre_inv s"
  by (simp add: quiet_def pre_inv_def)

lemma quiet_binv: "quiet s s' \<Longrightarrow> binv s' = binv s"
  by (simp add: quiet_def binv_def pre_inv_def)

lemma quiet_core: "quiet s s' \<Longrightarrow> core_step s s'"
  by (simp add: quiet_def core_step_def)

lemma quiet_evolves: "quiet s s' \<Longrightarrow> evolves drv X s s'"
  using claims_step[of s s' drv] quiet_core[of s s']
  by (auto simp: quiet_def evolves_unfold externalize_justified_def calls_step_def)

lemma commits_logCall: "emitted c = {} \<Longrightarrow> commits (logCall c s) = commits s"
  by (simp add: commits_def logCall_def)

lemma commits_call [simp]: "emitted c = {} \<Longrightarrow> commits (s\<lparr>mDriverCalls := mDriverCalls s @ [c]\<rparr>) = commits s"
  by (simp add: commits_def)

lemma commits_send: "commits (sendLatestEnvelope s) \<subseteq> commits s"
  by (auto simp: commits_def sendLatestEnvelope_def logCall_def split: option.splits)

lemma commits_upd [simp]:
  "commits (s\<lparr>mCurrentBallot := b\<rparr>) = commits s" "commits (s\<lparr>mPrepared := b\<rparr>) = commits s"
  "commits (s\<lparr>mPreparedPrime := b\<rparr>) = commits s" "commits (s\<lparr>mHighBallot := b\<rparr>) = commits s"
  "commits (s\<lparr>mCommit := b\<rparr>) = commits s" "commits (s\<lparr>mPhase := ph\<rparr>) = commits s"
  "commits (s\<lparr>mValueOverride := v\<rparr>) = commits s" "commits (s\<lparr>mHeardFromQuorum := q\<rparr>) = commits s"
  "commits (s\<lparr>mCurrentMessageLevel := l\<rparr>) = commits s" "commits (s\<lparr>mLatestEnvelopes := m\<rparr>) = commits s"
  "commits (s\<lparr>mFullyValidated := q\<rparr>) = commits s" "commits (s\<lparr>mStatementsHistory := hs\<rparr>) = commits s"
  "commits (s\<lparr>mNomination := n\<rparr>) = commits s"
  by (simp_all add: commits_def)

lemma claims_level [simp]: "claims drv (s\<lparr>mCurrentMessageLevel := l\<rparr>) = claims drv s"
proof -
  have "claim drv (s\<lparr>mCurrentMessageLevel := l\<rparr>) pl = claim drv s pl" for pl
    by (cases pl) (simp_all add: claim_def)
  then show ?thesis by (simp add: claims_def)
qed

lemma quiet_logCall: "\<not> isExternalized c \<Longrightarrow> emitted c = {} \<Longrightarrow> quiet s (logCall c s)"
  using commits_logCall[of c s] by (simp add: quiet_def logCall_def)

lemma quiet_sendLatestEnvelope: "quiet s (sendLatestEnvelope s)"
  using commits_send[of s] by (simp add: quiet_def sendLatestEnvelope_def logCall_def split: option.splits)

lemma quiet_upd [simp]:
  "quiet s (s\<lparr>mValueOverride := v\<rparr>)" "quiet s (s\<lparr>mHeardFromQuorum := q\<rparr>)"
  by (simp_all add: quiet_def)

lemma quiet_checkHeardFromQuorum: "quiet s (checkHeardFromQuorum drv s)"
proof (cases "mCurrentBallot s")
  case (Some b)
  have step: "quiet s (logCall c s')" if "quiet s s'" "\<not> isExternalized c" "emitted c = {}" for c s'
    using quiet_trans[OF that(1) quiet_logCall[OF that(2,3)]] .
  show ?thesis
    unfolding checkHeardFromQuorum_def Let_def Some option.case by (auto intro!: step)
qed (simp add: checkHeardFromQuorum_def)

section \<open>Failures\<close>

definition expected_error :: "scp_error \<Rightarrow> bool" where
  "expected_error e \<longleftrightarrow>
     e \<in> {MaxTransitions, MovedToBadState, NullDeref, AssertBallotCounter, AssertAcceptCompatible,
          AssertClearCommitPhase}"

lemma expected_errors [simp]:
  "expected_error MaxTransitions" "expected_error MovedToBadState" "expected_error NullDeref"
  "expected_error AssertBallotCounter" "expected_error AssertAcceptCompatible"
  "expected_error AssertClearCommitPhase"
  by (simp_all add: expected_error_def)

text \<open>The postcondition of an operation run in state \<open>s\<close>, and the contract of the callback.\<close>

definition good :: "SCPDriver \<Rightarrow> Slot \<Rightarrow> 'a res \<Rightarrow> bool" where
  "good drv s m \<longleftrightarrow> post m expected_error (\<lambda>_ s'. binv s' \<and> evolves drv {localNodeID drv} s s')"

definition own_envelope :: "SCPDriver \<Rightarrow> Slot \<Rightarrow> SCPEnvelope \<Rightarrow> bool" where
  "own_envelope drv s e \<longleftrightarrow>
     nodeID (stmt e) = localNodeID drv \<and> slotIndex (stmt e) = mSlotIndex s \<and>
     pledgesType (pledges (stmt e)) < 3"

definition proc_ok :: "SCPDriver \<Rightarrow> self_proc \<Rightarrow> nat \<Rightarrow> bool" where
  "proc_ok drv proc L \<longleftrightarrow>
     (\<forall>e s. binv s \<and> mCurrentMessageLevel s = L \<and> own_envelope drv s e \<longrightarrow> good drv s (proc e s))"

lemma good_Inr [simp]: "good drv s (Inr (a, s')) \<longleftrightarrow> binv s' \<and> evolves drv {localNodeID drv} s s'"
  by (simp add: good_def)

lemma good_Inl [simp]: "good drv s (Inl e) \<longleftrightarrow> expected_error e"
  by (simp add: good_def)

lemma good_trans:
  assumes "evolves drv {localNodeID drv} s s'" "good drv s' m"
  shows "good drv s m"
  using assms(2) unfolding good_def
  by (rule post_mono) (use assms(1) evolves_local_trans in blast)

lemma good_bind:
  assumes "good drv s m"
    and "\<And>a s'. binv s' \<Longrightarrow> evolves drv {localNodeID drv} s s' \<Longrightarrow> good drv s' (f a s')"
  shows "good drv s (bindE m f)"
  unfolding good_def
proof (rule post_bindE)
  show "post m expected_error (\<lambda>_ s'. binv s' \<and> evolves drv {localNodeID drv} s s')"
    using assms(1) by (simp add: good_def)
  show "post (f a s') expected_error (\<lambda>_ s'. binv s' \<and> evolves drv {localNodeID drv} s s')"
    if "binv s' \<and> evolves drv {localNodeID drv} s s'" for a s'
    using good_trans[of drv s s' "f a s'"] assms(2)[of s' a] that unfolding good_def by blast
qed

lemma evolves_level: "evolves drv X s s' \<Longrightarrow> mCurrentMessageLevel s' = mCurrentMessageLevel s"
  by (simp add: evolves_unfold)

section \<open>Emitting a statement\<close>

lemma createStatement_cases:
  assumes "pre_inv s"
  shows "(\<exists>e. createStatement drv s = Inl e \<and> expected_error e) \<or>
    (\<exists>pl. createStatement drv s = Inr pl \<and> binv s \<and> pledgesType pl < 3)"
proof (cases "mCurrentBallot s")
  case None
  then have "mHighBallot s = None" "mCommit s = None" "mPhase s = SCP_PHASE_PREPARE"
    using assms by (cases "mHighBallot s"; cases "mCommit s"; auto simp: pre_inv_def)+
  then show ?thesis
    using None assms checkInvariants_cases[OF assms]
    by (simp add: createStatement_def createPledges_def binv_def pledgesType_def)
next
  case (Some b)
  show ?thesis
  proof (cases "counter b = 0")
    case True
    then show ?thesis using Some checkInvariants_cases[OF assms] by (simp add: createStatement_def)
  next
    case False
    then have chk: "checkInvariants s = Inr ((), s)" using Some checkInvariants_cases[OF assms] by simp
    show ?thesis
      using Some False assms
      by (cases "mPhase s"; cases "mPrepared s"; cases "mCommit s"; cases "mHighBallot s")
        (simp_all add: createStatement_def chk createPledges_def binv_def pre_inv_def pledgesType_def)
  qed
qed

lemma createStatement_claim:
  assumes "binv s" "createStatement drv s = Inr pl"
  shows "claim drv s pl"
proof -
  have pl: "createPledges drv s = Inr pl"
    using assms(2) by (cases "checkInvariants s") (simp_all add: createStatement_def)
  show ?thesis
    using assms(1) pl
    by (cases "mPhase s"; cases "mCurrentBallot s"; cases "mPrepared s"; cases "mCommit s"; cases "mHighBallot s")
      (auto simp: createPledges_def claim_def binv_def pre_inv_def)
qed

text \<open>A new last envelope whose claim holds.\<close>

lemma newLast_evolves:
  assumes "claim drv s (pledges (stmt e))"
  shows "evolves drv X s (s\<lparr>mLastEnvelope := Some e\<rparr>)"
proof -
  let ?s = "s\<lparr>mLastEnvelope := Some e\<rparr>"
  have core: "core_step s ?s" by (simp add: core_step_def)
  have "commits ?s \<subseteq> insert (pledges (stmt e)) (commits s)" by (auto simp: commits_def)
  then have "claims drv s \<longrightarrow> claims drv ?s"
    using claim_step[OF core] assms unfolding claims_def by blast
  then show ?thesis
    using core by (simp add: evolves_unfold externalize_justified_def calls_step_def)
qed

lemma emit_good:
  assumes inv: "pre_inv s" and proc: "proc_ok drv proc (mCurrentMessageLevel s)"
  shows "good drv s (emitCurrentStateStatement drv proc s)"
proof -
  from createStatement_cases[OF inv, of drv] show ?thesis
  proof (elim disjE exE conjE)
    fix e assume "createStatement drv s = Inl e" "expected_error e"
    then show ?thesis by (simp add: emitCurrentStateStatement_def)
  next
    fix pl assume cr: "createStatement drv s = Inr pl" and b: "binv s" and t: "pledgesType pl < 3"
    have own: "own_envelope drv s (createEnvelope drv s pl)"
      by (simp add: own_envelope_def createEnvelope_def Let_def t)
    have g: "good drv s (proc (createEnvelope drv s pl) s)"
      using proc b own unfolding proc_ok_def by blast
    have tail: "good drv s' (if r = VALID then
        (if P s' then Inr ((), sendLatestEnvelope (s'\<lparr>mLastEnvelope := Some (createEnvelope drv s pl)\<rparr>))
         else Inr ((), s')) else Inl MovedToBadState)"
      if s': "binv s'" "evolves drv {localNodeID drv} s s'" for r P s'
    proof -
      have "claim drv s' pl"
        using claim_step[OF _ createStatement_claim[OF b cr]] s'(2) by (simp add: evolves_unfold)
      then have "evolves drv {localNodeID drv} s' (s'\<lparr>mLastEnvelope := Some (createEnvelope drv s pl)\<rparr>)"
        by (intro newLast_evolves) (simp add: createEnvelope_def Let_def)
      moreover have "binv (s'\<lparr>mLastEnvelope := Some (createEnvelope drv s pl)\<rparr>)"
        using s'(1) by (simp add: binv_def pre_inv_def)
      ultimately show ?thesis
        using s' quiet_binv[OF quiet_sendLatestEnvelope] evolves_local_trans[OF _ quiet_evolves[OF quiet_sendLatestEnvelope]]
        by simp
    qed
    show ?thesis
      unfolding emitCurrentStateStatement_def cr sum.case Let_def
      using b by (auto intro!: good_bind[OF g] tail)
  qed
qed

section \<open>Changing ballots\<close>

text \<open>What operations on the ballots leave alone until the new statement is emitted.\<close>

definition frame :: "Slot \<Rightarrow> Slot \<Rightarrow> bool" where
  "frame s s' \<longleftrightarrow>
     mSlotIndex s' = mSlotIndex s \<and> mFullyValidated s' = mFullyValidated s \<and>
     mLatestEnvelopes s' = mLatestEnvelopes s \<and> mCurrentMessageLevel s' = mCurrentMessageLevel s \<and>
     nomkeep s s' \<and> commits s' \<subseteq> commits s \<and>
     (\<exists>cs. mDriverCalls s' = mDriverCalls s @ cs \<and> filter isExternalized cs = [])"

lemma frame_refl [simp]: "frame s s"
  by (simp add: frame_def)

lemma frame_trans: "frame s s' \<Longrightarrow> frame s' s'' \<Longrightarrow> frame s s''"
  using nomkeep_trans[of s s' s''] subset_trans[of "commits s''"] by (auto simp: frame_def)

lemma quiet_frame: "quiet s s' \<Longrightarrow> frame s s'"
  by (simp add: quiet_def frame_def)

lemma frame_upd [simp]:
  "frame s (s\<lparr>mCurrentBallot := x\<rparr>)" "frame s (s\<lparr>mPrepared := x\<rparr>)" "frame s (s\<lparr>mPreparedPrime := x\<rparr>)"
  "frame s (s\<lparr>mHighBallot := x\<rparr>)" "frame s (s\<lparr>mCommit := x\<rparr>)" "frame s (s\<lparr>mPhase := ph\<rparr>)"
  "frame s (s\<lparr>mCommit := x, mHighBallot := y\<rparr>)" "frame s (s\<lparr>mValueOverride := v\<rparr>)"
  "frame s (s\<lparr>mPreparedPrime := x, mPrepared := y\<rparr>)"
  by (simp_all add: frame_def)

lemma frame_level: "frame s s' \<Longrightarrow> mCurrentMessageLevel s' = mCurrentMessageLevel s"
  by (simp add: frame_def)

lemma frame_latest: "frame s s' \<Longrightarrow> mLatestEnvelopes s' = mLatestEnvelopes s"
  by (simp add: frame_def)

text \<open>A change of ballots within the rules of \<open>core_step\<close>, short of externalizing.\<close>

lemma frame_evolves:
  assumes "frame s s'" "core_step s s'" "mPhase s' \<noteq> SCP_PHASE_EXTERNALIZE"
  shows "evolves drv X s s'"
proof -
  have "mPhase s \<noteq> SCP_PHASE_EXTERNALIZE" using core_step_ext[OF assms(2)] assms(3) by blast
  then show ?thesis
    using assms claims_step[of s s' drv]
    by (simp add: frame_def evolves_unfold externalize_justified_def calls_step_def)
qed

lemma good_emit_after:
  assumes "frame s s'" "core_step s s'" "mPhase s' \<noteq> SCP_PHASE_EXTERNALIZE" "pre_inv s'"
    and "proc_ok drv proc (mCurrentMessageLevel s)"
  shows "good drv s (emitCurrentStateStatement drv proc s')"
  by (rule good_trans[OF frame_evolves[OF assms(1-3)] emit_good[OF assms(4)]])
    (use assms(5) frame_level[OF assms(1)] in simp)

definition bump_rel :: "SCPBallot \<Rightarrow> Slot \<Rightarrow> Slot \<Rightarrow> bool" where
  "bump_rel ballot s s' \<longleftrightarrow>
     frame s s' \<and> mPhase s' = mPhase s \<and> mCurrentBallot s' = Some ballot \<and>
     mPrepared s' = mPrepared s \<and> mPreparedPrime s' = mPreparedPrime s \<and>
     (let reset = (case mHighBallot s of Some h \<Rightarrow> bvalue h \<noteq> bvalue ballot | None \<Rightarrow> False) in
      mHighBallot s' = (if reset then None else mHighBallot s) \<and>
      mCommit s' = (if reset then None else mCommit s))"

lemma bumpToBallot_ok:
  assumes "mPhase s \<noteq> SCP_PHASE_EXTERNALIZE" "check \<Longrightarrow> ballot_le (mCurrentBallot s) (Some ballot)"
  shows "\<exists>s'. bumpToBallot ballot check s = Inr ((), s') \<and> bump_rel ballot s s'"
proof -
  have "\<not> (check \<and> (case mCurrentBallot s of Some b \<Rightarrow> \<not> compareBallots ballot b \<ge> 0 | None \<Rightarrow> False))"
    using assms(2) by (auto simp: compareBallots_order split: option.splits)
  then show ?thesis
    using assms(1)
    by (cases "mHighBallot s")
      (simp_all add: bumpToBallot_def bump_rel_def frame_def logCall_def Let_def areBallotsCompatible_def
        eq_commute[of "bvalue ballot"])
qed

lemma updateCurrentIfNeeded_ok:
  assumes "mPhase s \<noteq> SCP_PHASE_EXTERNALIZE"
  shows "(\<exists>s'. updateCurrentIfNeeded h s = Inr (True, s') \<and> bump_rel h s s' \<and>
            (case mCurrentBallot s of None \<Rightarrow> True | Some b \<Rightarrow> b < h)) \<or>
         (\<exists>b. updateCurrentIfNeeded h s = Inr (False, s) \<and> mCurrentBallot s = Some b \<and> h \<le> b)"
proof (cases "case mCurrentBallot s of None \<Rightarrow> True | Some b \<Rightarrow> b < h")
  case True
  then have "ballot_le (mCurrentBallot s) (Some h)" by (auto split: option.splits)
  then obtain s' where "bumpToBallot h True s = Inr ((), s')" "bump_rel h s s'"
    using bumpToBallot_ok[OF assms, of True h] by blast
  with True show ?thesis
    by (auto simp: updateCurrentIfNeeded_def compareBallots_order split: option.splits)
next
  case False
  then obtain b where "mCurrentBallot s = Some b" "h \<le> b" by (auto split: option.splits)
  then show ?thesis by (simp add: updateCurrentIfNeeded_def compareBallots_order leD)
qed

section \<open>Accepting a ballot as prepared\<close>

definition same_hbc :: "Slot \<Rightarrow> Slot \<Rightarrow> bool" where
  "same_hbc s s' \<longleftrightarrow>
     frame s s' \<and> mPhase s' = mPhase s \<and> mCurrentBallot s' = mCurrentBallot s \<and>
     mHighBallot s' = mHighBallot s \<and> mCommit s' = mCommit s"

lemma same_hbc_core: "same_hbc s s' \<Longrightarrow> mPhase s \<noteq> SCP_PHASE_EXTERNALIZE \<Longrightarrow> core_step s s'"
  by (simp add: same_hbc_def core_step_def)

lemma setPrepared_ok:
  assumes "pre_inv s" "mPhase s \<noteq> SCP_PHASE_EXTERNALIZE" "skipAcceptPrepared ballot s = Inr False"
    and "setPrepared ballot s = (didWork, s')"
  shows "pre_inv s' \<and> same_hbc s s' \<and> (\<not> didWork \<longrightarrow> s' = s)"
proof (cases "mPrepared s")
  case None
  with assms show ?thesis
    by (cases "mPhase s"; cases "mPreparedPrime s")
      (auto simp: setPrepared_def skipAcceptPrepared_def pre_inv_def same_hbc_def)
next
  case (Some p)
  show ?thesis
  proof (cases "mPhase s = SCP_PHASE_CONFIRM")
    case True
    with Some assms show ?thesis
      by (cases "mCommit s")
        (auto simp: setPrepared_def skipAcceptPrepared_def pre_inv_def same_hbc_def Let_def lessCompatible_iff
          compareBallots_order areBallotsCompatible_def ballot_less_iff split: if_splits)
  next
    case False
    then have "mPhase s = SCP_PHASE_PREPARE" using assms(2) by (cases "mPhase s") simp_all
    with Some assms show ?thesis
      by (cases "mPreparedPrime s")
        (auto simp: setPrepared_def skipAcceptPrepared_def pre_inv_def same_hbc_def Let_def lessCompatible_iff
          compareBallots_order areBallotsCompatible_def not_le not_less split: if_splits
          dest: ballot_less_counter)
  qed
qed

lemma setAcceptPrepared_good:
  assumes inv: "binv s" and ph: "mPhase s \<noteq> SCP_PHASE_EXTERNALIZE"
    and skip: "skipAcceptPrepared ballot s = Inr False"
    and proc: "proc_ok drv proc (mCurrentMessageLevel s)"
  shows "good drv s (setAcceptPrepared drv proc ballot s)"
proof -
  obtain d s1 where s1: "setPrepared ballot s = (d, s1)" by (cases "setPrepared ballot s")
  have ok: "pre_inv s1" "same_hbc s s1" "\<not> d \<Longrightarrow> s1 = s"
    using setPrepared_ok[OF binv_pre[OF inv] ph skip s1] by simp_all
  have emit: "good drv s (bindE (emitCurrentStateStatement drv proc (logCall (AcceptedBallotPrepared ballot) s2))
      (\<lambda>_ s. Inr (True, s)))"
    if "frame s s2" "core_step s s2" "mPhase s2 = mPhase s" "pre_inv s2" for s2
  proof (rule good_bind)
    let ?s = "logCall (AcceptedBallotPrepared ballot) s2"
    have q: "quiet s2 ?s" by (rule quiet_logCall) simp_all
    show "good drv s (emitCurrentStateStatement drv proc ?s)"
    proof (rule good_emit_after[OF _ _ _ _ proc])
      show "frame s ?s" by (rule frame_trans[OF that(1) quiet_frame[OF q]])
      show "core_step s ?s"
        using core_step_trans[OF that(2)] quiet_evolves[OF q, of drv "{}"] by (simp add: evolves_unfold)
      show "mPhase ?s \<noteq> SCP_PHASE_EXTERNALIZE" using that(3) ph q by (simp add: quiet_def)
      show "pre_inv ?s" using that(4) quiet_pre_inv[OF q] by simp
    qed
  qed simp
  have frame1: "frame s s1" "mPhase s1 = mPhase s" using ok(2) by (simp_all add: same_hbc_def)
  have core1: "core_step s s1" by (rule same_hbc_core[OF ok(2) ph])
  have clear: "frame s (s1\<lparr>mCommit := None\<rparr>)" "core_step s (s1\<lparr>mCommit := None\<rparr>)" "pre_inv (s1\<lparr>mCommit := None\<rparr>)"
    if "mPhase s1 = SCP_PHASE_PREPARE"
    using that frame_trans[OF frame1(1) frame_upd(5)] core1 ok(1)
    by (simp_all add: core_step_def frame1(2)[symmetric] pre_inv_def)
  have none: "binv s1 \<and> evolves drv {localNodeID drv} s s1" if "\<not> d" using ok(3)[OF that] inv by simp
  note goals = emit[OF frame1(1) core1 frame1(2) ok(1)] none
    emit[of "s1\<lparr>mCommit := None\<rparr>", OF clear(1) clear(2) _ clear(3)]
  show ?thesis
    by (cases "mCommit s1"; cases "mHighBallot s1"; cases d)
      (simp_all add: setAcceptPrepared_def s1 goals frame1(2))
qed

lemma acceptPreparedLoop_good:
  assumes "binv s" "mPhase s \<noteq> SCP_PHASE_EXTERNALIZE" "proc_ok drv proc (mCurrentMessageLevel s)"
  shows "good drv s (acceptPreparedLoop drv proc cs s)"
proof (induction cs)
  case (Cons ballot cs)
  have "expected_error e" if "skipAcceptPrepared ballot s = Inl e" for e
    using that by (auto simp: skipAcceptPrepared_def Let_def split: if_splits option.splits)
  then show ?case
    using Cons setAcceptPrepared_good[OF assms(1,2) _ assms(3), of ballot]
    by (simp split: sum.split bool.split)
qed (use assms in simp)

lemma attemptAcceptPrepared_good:
  assumes "binv s" "proc_ok drv proc (mCurrentMessageLevel s)"
  shows "good drv s (attemptAcceptPrepared drv proc hint s)"
  using assms acceptPreparedLoop_good[OF assms(1) _ assms(2)]
  by (cases "mPhase s") (simp_all add: attemptAcceptPrepared_def)

section \<open>Confirming a ballot as prepared\<close>

lemma findNewH_facts:
  assumes "findNewH drv s cs = Some cs'"
  shows "\<exists>newH r. cs' = newH # r \<and> newH \<in> set cs \<and>
    (case mHighBallot s of Some h \<Rightarrow> h < newH | None \<Rightarrow> True) \<and>
    federatedRatify drv (hasPreparedBallot newH) (mLatestEnvelopes s)"
  using assms
  by (induction cs) (auto simp: compareBallots_order not_le split: if_splits option.splits)

lemma findNewC_facts:
  "findNewC drv s b newH newC cs = newC \<or>
   areBallotsLessAndCompatible (findNewC drv s b newH newC cs) newH"
proof (induction cs arbitrary: newC)
  case (Cons x cs)
  show ?case using Cons[of newC] Cons[of x] by auto
qed simp

text \<open>The update of the ballots, before and after the current ballot follows.\<close>

definition follows :: "SCPBallot \<Rightarrow> Slot \<Rightarrow> Slot \<Rightarrow> bool" where
  "follows h s s' \<longleftrightarrow>
     (bump_rel h s s' \<and> (case mCurrentBallot s of None \<Rightarrow> True | Some b \<Rightarrow> b < h)) \<or>
     (s' = s \<and> (\<exists>b. mCurrentBallot s = Some b \<and> h \<le> b))"

lemma follows_frame: "follows h s s' \<Longrightarrow> frame s s' \<and> mPhase s' = mPhase s"
  by (auto simp: follows_def bump_rel_def)

lemma updateCurrentIfNeeded_follows:
  assumes "mPhase s \<noteq> SCP_PHASE_EXTERNALIZE"
  shows "\<exists>u s'. updateCurrentIfNeeded h s = Inr (u, s') \<and> follows h s s' \<and> (\<not> u \<longrightarrow> s' = s)"
  using updateCurrentIfNeeded_ok[OF assms, of h] by (auto simp: follows_def)

definition confirmed :: "SCPBallot \<Rightarrow> SCPBallot option \<Rightarrow> Slot \<Rightarrow> Slot \<Rightarrow> bool" where
  "confirmed newH c s s' \<longleftrightarrow>
     frame s s' \<and> mPhase s' = mPhase s \<and> mCurrentBallot s' = mCurrentBallot s \<and>
     mPrepared s' = mPrepared s \<and> mPreparedPrime s' = mPreparedPrime s \<and>
     mHighBallot s' = Some newH \<and> mCommit s' = c"

lemma confirmed_follows:
  assumes "pre_inv s" "mPhase s = SCP_PHASE_PREPARE" "confirmed newH c s s1" "follows newH s1 s2"
    and "\<And>b. mCurrentBallot s = Some b \<Longrightarrow> bvalue b = bvalue newH" "under c (Some newH)"
  shows "pre_inv s2 \<and> core_step s s2 \<and> frame s s2 \<and> mPhase s2 = SCP_PHASE_PREPARE"
proof -
  have f: "frame s s2" "mPhase s2 = SCP_PHASE_PREPARE"
    using follows_frame[OF assms(4)] assms(2,3) frame_trans by (auto simp: confirmed_def)
  have l: "mLatestEnvelopes s2 = mLatestEnvelopes s" using frame_latest[OF f(1)] .
  have core: "core_step s s2"
    using assms(2-4) by (auto simp: core_step_def confirmed_def follows_def bump_rel_def split: option.splits)
  have "pre_inv s2"
    using assms l
    by (cases "mCurrentBallot s") (auto simp: pre_inv_def confirmed_def follows_def bump_rel_def ballot_le_iff)
  with f core show ?thesis by simp
qed

lemma incompatible_follows:
  assumes "pre_inv s" "mPhase s = SCP_PHASE_PREPARE" "quiet s s1" "follows newH s1 s2"
    and "mCurrentBallot s = Some b" "bvalue b \<noteq> bvalue newH"
  shows "pre_inv s2 \<and> core_step s s2 \<and> frame s s2 \<and> mPhase s2 = SCP_PHASE_PREPARE"
proof -
  have f: "frame s s2" "mPhase s2 = SCP_PHASE_PREPARE"
    using follows_frame[OF assms(4)] assms(2,3) frame_trans quiet_frame[OF assms(3)] by (auto simp: quiet_def)
  have l: "mLatestEnvelopes s2 = mLatestEnvelopes s" using frame_latest[OF f(1)] .
  have core: "core_step s s2"
    using assms(2-5) by (auto simp: core_step_def quiet_def follows_def bump_rel_def)
  have "pre_inv s2"
    using assms l
    by (cases "mHighBallot s") (auto simp: pre_inv_def quiet_def follows_def bump_rel_def)
  with f core show ?thesis by simp
qed

lemma setConfirmPrepared_good:
  assumes inv: "binv s" and ph: "mPhase s = SCP_PHASE_PREPARE"
    and proc: "proc_ok drv proc (mCurrentMessageLevel s)"
    and h: "case mHighBallot s of Some h \<Rightarrow> h < newH | None \<Rightarrow> True"
    and c: "counter newC \<noteq> 0 \<Longrightarrow> mCommit s = None \<and> areBallotsLessAndCompatible newC newH"
  shows "good drv s (setConfirmPrepared drv proc newC newH s)"
proof -
  let ?compat = "case mCurrentBallot s of None \<Rightarrow> True | Some b \<Rightarrow> areBallotsCompatible b newH"
  let ?tail = "\<lambda>didWork s1. bindE (updateCurrentIfNeeded newH s1) (\<lambda>updated s.
            if updated \<or> didWork then
              bindE (emitCurrentStateStatement drv proc s) (\<lambda>_ s. Inr (True, s))
            else Inr (False, s))"
  have tail: "good drv s (?tail d s1)"
    if s1: "mPhase s1 = SCP_PHASE_PREPARE" "\<not> d \<Longrightarrow> quiet s s1"
      and s2: "\<And>s2. follows newH s1 s2 \<Longrightarrow>
        pre_inv s2 \<and> core_step s s2 \<and> frame s s2 \<and> mPhase s2 = SCP_PHASE_PREPARE" for d s1
  proof -
    obtain u s2 where u: "updateCurrentIfNeeded newH s1 = Inr (u, s2)" "follows newH s1 s2" "\<not> u \<longrightarrow> s2 = s1"
      using updateCurrentIfNeeded_follows[of s1 newH] s1(1) by auto
    have "good drv s (emitCurrentStateStatement drv proc s2)"
      using s2[OF u(2)] by (intro good_emit_after[OF _ _ _ _ proc]) simp_all
    then have "good drv s (bindE (emitCurrentStateStatement drv proc s2) (\<lambda>_ s. Inr (True, s)))"
      by (rule good_bind) simp
    then show ?thesis
      using u(1,3) s1(2) inv quiet_binv[of s s1] quiet_evolves[of s s1 drv] by (cases u; cases d) simp_all
  qed
  show ?thesis
  proof (cases ?compat)
    case True
    define C where "C = (if counter newC \<noteq> 0 then Some newC else mCommit s)"
    define s1 where "s1 = logCall (ConfirmedBallotPrepared newH)
      (s\<lparr>mValueOverride := Some (bvalue newH), mHighBallot := Some newH, mCommit := C\<rparr>)"
    have eq: "setConfirmPrepared drv proc newC newH s = ?tail True s1"
      using True h c
      by (cases "mHighBallot s"; cases "counter newC = 0")
        (simp_all add: setConfirmPrepared_def s1_def C_def compareBallots_order)
    have conf: "confirmed newH C s s1" by (simp add: confirmed_def s1_def frame_def logCall_def commits_def)
    have val: "bvalue b = bvalue newH" if "mCurrentBallot s = Some b" for b
      using True that by (simp add: areBallotsCompatible_def)
    have "under (mCommit s) (Some newH)"
    proof (cases "mCommit s")
      case (Some x)
      obtain y where y: "mHighBallot s = Some y" "counter x \<le> counter y" "bvalue x = bvalue y"
        using inv Some by (cases "mHighBallot s") (simp_all add: binv_def pre_inv_def)
      obtain b where b: "mCurrentBallot s = Some b" "bvalue y = bvalue b"
        using inv y(1) by (cases "mCurrentBallot s") (simp_all add: binv_def pre_inv_def)
      have "y < newH" using h y(1) by simp
      from ballot_less_counter[OF this] show ?thesis using Some y b val[OF b(1)] by simp
    qed simp
    then have "under C (Some newH)" using c by (simp add: C_def lessCompatible_iff)
    then show ?thesis
      unfolding eq using confirmed_follows[OF binv_pre[OF inv] ph conf _ val] conf ph
      by (intro tail) (simp_all add: confirmed_def)
  next
    case False
    then obtain b where b: "mCurrentBallot s = Some b" "bvalue b \<noteq> bvalue newH"
      by (auto simp: areBallotsCompatible_def split: option.splits)
    let ?s = "s\<lparr>mValueOverride := Some (bvalue newH)\<rparr>"
    have eq: "setConfirmPrepared drv proc newC newH s = ?tail False ?s"
      using False by (simp add: setConfirmPrepared_def)
    show ?thesis
      unfolding eq using ph incompatible_follows[OF binv_pre[OF inv] ph quiet_upd(1) _ b]
      by (intro tail) simp_all
  qed
qed

lemma attemptConfirmPrepared_good:
  assumes "binv s" "proc_ok drv proc (mCurrentMessageLevel s)"
  shows "good drv s (attemptConfirmPrepared drv proc hint s)"
proof (cases "mPhase s \<noteq> SCP_PHASE_PREPARE \<or> mPrepared s = None \<or>
    findNewH drv s (rev (getPrepareCandidates hint s)) = None")
  case True
  then show ?thesis using assms(1) by (auto simp: attemptConfirmPrepared_def)
next
  case False
  then obtain p where p: "mPrepared s = Some p" by auto
  from False obtain cs' where cs': "findNewH drv s (rev (getPrepareCandidates hint s)) = Some cs'" by auto
  then obtain newH r where n: "cs' = newH # r" "case mHighBallot s of Some h \<Rightarrow> h < newH | None \<Rightarrow> True"
    using findNewH_facts by blast
  define newC where "newC =
      (if mCommit s = None \<and> \<not> lessIncompatiblePtr newH (mPrepared s) \<and>
          \<not> lessIncompatiblePtr newH (mPreparedPrime s)
       then findNewC drv s (case mCurrentBallot s of Some b \<Rightarrow> b | None \<Rightarrow> emptyBallot) newH emptyBallot cs'
       else emptyBallot)"
  have c: "mCommit s = None \<and> areBallotsLessAndCompatible newC newH" if "counter newC \<noteq> 0"
  proof -
    let ?cond = "mCommit s = None \<and> \<not> lessIncompatiblePtr newH (mPrepared s) \<and>
          \<not> lessIncompatiblePtr newH (mPreparedPrime s)"
    have ?cond using that by (cases ?cond) (simp_all add: newC_def)
    moreover have "newC \<noteq> emptyBallot" using that by auto
    ultimately show ?thesis
      using findNewC_facts[of drv s "case mCurrentBallot s of Some b \<Rightarrow> b | None \<Rightarrow> emptyBallot" newH emptyBallot cs']
      by (simp add: newC_def)
  qed
  have "attemptConfirmPrepared drv proc hint s = setConfirmPrepared drv proc newC newH s"
    using p False cs' by (simp add: attemptConfirmPrepared_def Let_def n(1) newC_def del: findNewC.simps)
  moreover have "good drv s (setConfirmPrepared drv proc newC newH s)"
    by (rule setConfirmPrepared_good[OF assms(1) _ assms(2) n(2)]) (use False c in auto)
  ultimately show ?thesis by simp
qed

end
