(* ===== verification/BallotAdvance.thy ===== *)
theory BallotAdvance
  imports BallotInv
begin

text \<open>
  The second half of the argument of \<open>BallotInv\<close>: accepting and confirming commits, catching up with
  the counters of others, advancing the slot and processing an envelope. The loop around
  \<^verbatim>\<open>attemptBump\<close> and the recursion through the node's own statements are shown to end.
\<close>

section \<open>Intervals of commits\<close>

text \<open>A candidate interval is empty (its lower end 0) or satisfies the predicate and is not reversed.\<close>

definition interval_ok :: "(Interval \<Rightarrow> bool) \<Rightarrow> Interval \<Rightarrow> bool" where
  "interval_ok pred i \<longleftrightarrow> (fst i \<noteq> 0 \<longrightarrow> pred i \<and> fst i \<le> snd i)"

lemma extendInterval_ok:
  "interval_ok pred candidate \<Longrightarrow> interval_ok pred (extendInterval pred candidate bs)"
proof (induction bs arbitrary: candidate)
  case (Cons b bs)
  let ?cur = "if fst candidate = 0 then (b, b) else (b, snd candidate)"
  have "interval_ok pred ?cur" if "pred ?cur" "\<not> (fst candidate \<noteq> 0 \<and> b > snd candidate)"
    using that by (auto simp: interval_ok_def)
  then show ?case
    using Cons.IH[of candidate] Cons.IH[of ?cur] Cons.prems by (auto simp: Let_def)
qed simp

lemma findExtendedInterval_ok:
  assumes "findExtendedInterval (0, 0) bs pred = i" "fst i \<noteq> 0"
  shows "pred i" "fst i \<le> snd i"
  using extendInterval_ok[of pred "(0, 0)" "rev bs"] assms
  by (auto simp: findExtendedInterval_def interval_ok_def)

lemma commitPredicate_value:
  "bvalue a = bvalue b \<Longrightarrow> commitPredicate a i = commitPredicate b i"
  by (rule ext) (simp add: commitPredicate_def areBallotsCompatible_def split: SCPPledges.split)

section \<open>Accepting a commit\<close>

definition committed :: "SCPBallot \<Rightarrow> SCPBallot \<Rightarrow> Slot \<Rightarrow> Slot \<Rightarrow> bool" where
  "committed c h s s' \<longleftrightarrow>
     frame s s' \<and> mPhase s' = SCP_PHASE_CONFIRM \<and> mCommit s' = Some c \<and> mHighBallot s' = Some h \<and>
     mPrepared s' = mPrepared s \<and> mPreparedPrime s' = None \<and>
     (\<forall>b. mCurrentBallot s' = Some b \<longrightarrow> bvalue b = bvalue h) \<and>
     (mPhase s = SCP_PHASE_CONFIRM \<longrightarrow> mCurrentBallot s' = mCurrentBallot s)"

lemma committed_follows:
  assumes "pre_inv s" "mPhase s \<noteq> SCP_PHASE_EXTERNALIZE" "committed c h s s1" "follows h s1 s2"
    and "counter c \<le> counter h" "bvalue c = bvalue h"
    and "mPhase s = SCP_PHASE_CONFIRM \<Longrightarrow> map_option bvalue (mCommit s) = Some (bvalue h)"
  shows "pre_inv s2 \<and> core_step s s2 \<and> frame s s2 \<and> mPhase s2 = SCP_PHASE_CONFIRM \<and>
         mCommit s2 = Some c \<and> mHighBallot s2 = Some h \<and> mPrepared s2 = mPrepared s"
proof -
  have f: "frame s s2" "mPhase s2 = SCP_PHASE_CONFIRM"
    using follows_frame[OF assms(4)] assms(3) frame_trans by (auto simp: committed_def)
  have l: "mLatestEnvelopes s2 = mLatestEnvelopes s" using frame_latest[OF f(1)] .
  have keep: "mCommit s2 = Some c" "mHighBallot s2 = Some h" "mPrepared s2 = mPrepared s" "mPreparedPrime s2 = None"
    using assms(3,4) by (auto simp: committed_def follows_def bump_rel_def)
  obtain b where b: "mCurrentBallot s2 = Some b" "counter h \<le> counter b" "bvalue b = bvalue h"
    using assms(3,4) by (auto simp: committed_def follows_def bump_rel_def ballot_le_iff)
  have "ballot_le (mCurrentBallot s) (mCurrentBallot s2)" if "mPhase s = SCP_PHASE_CONFIRM"
    using assms(3,4) that by (auto simp: committed_def follows_def bump_rel_def split: option.splits)
  then have "core_step s s2"
    using assms(2,6,7) f(2) keep(1) by (cases "mPhase s") (auto simp: core_step_def)
  moreover have "pre_inv s2"
    using assms(1,5,6) keep b f(2) l by (simp add: pre_inv_def)
  ultimately show ?thesis using f keep by simp
qed

lemma setAcceptCommit_stage:
  assumes inv: "pre_inv s" and ph: "mPhase s \<noteq> SCP_PHASE_EXTERNALIZE"
    and conf: "mPhase s = SCP_PHASE_CONFIRM \<Longrightarrow> \<exists>h0. mHighBallot s = Some h0 \<and> bvalue h0 = bvalue h \<and> counter h0 < counter h"
  shows "\<exists>s1. committed c h s s1 \<and>
    setAcceptCommit drv proc c h s =
      bindE (updateCurrentIfNeeded h s1) (\<lambda>_ s.
      bindE (emitCurrentStateStatement drv proc (logCall (AcceptedCommit h) s)) (\<lambda>_ s. Inr (True, s)))"
proof (cases "mPhase s = SCP_PHASE_CONFIRM")
  case True
  let ?s = "s\<lparr>mValueOverride := Some (bvalue h), mCommit := Some c, mHighBallot := Some h\<rparr>"
  obtain h0 where h0: "mHighBallot s = Some h0" "bvalue h0 = bvalue h" "counter h0 < counter h"
    using conf[OF True] by blast
  have "bvalue b = bvalue h" if "mCurrentBallot s = Some b" for b
    using inv h0 that by (simp add: pre_inv_def)
  then have "committed c h s ?s"
    using True inv by (simp add: committed_def frame_def pre_inv_def)
  moreover have "h0 \<noteq> h" using h0 by auto
  ultimately show ?thesis
    using True h0 by (intro exI[of _ ?s]) (simp add: setAcceptCommit_def)
next
  case False
  with ph have P: "mPhase s = SCP_PHASE_PREPARE" by (cases "mPhase s") simp_all
  define s1 where "s1 = (if mHighBallot s \<noteq> Some h \<or> mCommit s \<noteq> Some c
      then s\<lparr>mValueOverride := Some (bvalue h), mCommit := Some c, mHighBallot := Some h\<rparr>
      else s\<lparr>mValueOverride := Some (bvalue h)\<rparr>)\<lparr>mPhase := SCP_PHASE_CONFIRM\<rparr>"
  have s1: "frame s s1" "mPhase s1 = SCP_PHASE_CONFIRM" "mCommit s1 = Some c" "mHighBallot s1 = Some h"
    "mPrepared s1 = mPrepared s" "mCurrentBallot s1 = mCurrentBallot s"
    by (auto simp: s1_def frame_def)
  let ?bump = "case mCurrentBallot s1 of Some b \<Rightarrow> \<not> areBallotsLessAndCompatible h b | None \<Rightarrow> False"
  have "\<exists>s2. (if ?bump then bumpToBallot h False s1 else Inr ((), s1)) = Inr ((), s2) \<and>
      committed c h s (s2\<lparr>mPreparedPrime := None\<rparr>)"
  proof (cases ?bump)
    case True
    obtain s2 where s2: "bumpToBallot h False s1 = Inr ((), s2)" "bump_rel h s1 s2"
      using bumpToBallot_ok[of s1 False h] s1(2) by auto
    have "frame s s2" using s2(2) frame_trans[OF s1(1)] by (simp add: bump_rel_def)
    then have "committed c h s (s2\<lparr>mPreparedPrime := None\<rparr>)"
      using s1 s2(2) P by (auto simp: committed_def bump_rel_def frame_def)
    with True s2(1) show ?thesis by simp
  next
    case False
    have "bvalue b = bvalue h" if "mCurrentBallot s1 = Some b" for b
      using False that by (simp add: lessCompatible_iff)
    then have "committed c h s (s1\<lparr>mPreparedPrime := None\<rparr>)"
      using s1 P by (simp add: committed_def frame_def)
    with False show ?thesis by auto
  qed
  then obtain s2 where s2: "(if ?bump then bumpToBallot h False s1 else Inr ((), s1)) = Inr ((), s2)"
    "committed c h s (s2\<lparr>mPreparedPrime := None\<rparr>)" by blast
  have "setAcceptCommit drv proc c h s =
     bindE (bindE (if ?bump then bumpToBallot h False s1 else Inr ((), s1))
       (\<lambda>_ s. Inr (True, s\<lparr>mPreparedPrime := None\<rparr>)))
        (\<lambda>didWork s.
          if didWork then
            (case mHighBallot s of
               None \<Rightarrow> Inl NullDeref
             | Some h' \<Rightarrow>
                 bindE (updateCurrentIfNeeded h' s) (\<lambda>_ s.
                 bindE (emitCurrentStateStatement drv proc (logCall (AcceptedCommit h) s)) (\<lambda>_ s.
                 Inr (True, s))))
          else Inr (False, s))"
    using P by (simp add: setAcceptCommit_def s1_def Let_def)
  then show ?thesis
    using s2 by (intro exI[of _ "s2\<lparr>mPreparedPrime := None\<rparr>"]) (simp add: s2(1) committed_def)
qed

lemma good_emit_quiet:
  assumes "pre_inv s1" "core_step s s1" "frame s s1" "mPhase s1 \<noteq> SCP_PHASE_EXTERNALIZE" "quiet s1 s2"
    and "proc_ok drv proc (mCurrentMessageLevel s)"
  shows "good drv s (emitCurrentStateStatement drv proc s2)"
proof (rule good_emit_after[OF _ _ _ _ assms(6)])
  show "frame s s2" by (rule frame_trans[OF assms(3) quiet_frame[OF assms(5)]])
  show "core_step s s2" by (rule core_step_trans[OF assms(2) quiet_core[OF assms(5)]])
  show "mPhase s2 \<noteq> SCP_PHASE_EXTERNALIZE" using assms(4,5) by (simp add: quiet_def)
  show "pre_inv s2" using assms(1) quiet_pre_inv[OF assms(5)] by simp
qed

lemma setAcceptCommit_good:
  assumes inv: "binv s" and ph: "mPhase s \<noteq> SCP_PHASE_EXTERNALIZE"
    and conf: "mPhase s = SCP_PHASE_CONFIRM \<Longrightarrow> \<exists>h0. mHighBallot s = Some h0 \<and> bvalue h0 = bvalue h \<and> counter h0 < counter h"
    and ch: "counter c \<le> counter h" "bvalue c = bvalue h"
    and proc: "proc_ok drv proc (mCurrentMessageLevel s)"
  shows "good drv s (setAcceptCommit drv proc c h s)"
proof -
  obtain s1 where s1: "committed c h s s1" "setAcceptCommit drv proc c h s =
      bindE (updateCurrentIfNeeded h s1) (\<lambda>_ s.
      bindE (emitCurrentStateStatement drv proc (logCall (AcceptedCommit h) s)) (\<lambda>_ s. Inr (True, s)))"
    using setAcceptCommit_stage[OF binv_pre[OF inv] ph conf] by blast
  obtain u s2 where s2: "updateCurrentIfNeeded h s1 = Inr (u, s2)" "follows h s1 s2"
    using updateCurrentIfNeeded_follows[of s1 h] s1(1) by (auto simp: committed_def)
  have val: "map_option bvalue (mCommit s) = Some (bvalue h)" if "mPhase s = SCP_PHASE_CONFIRM"
    using conf[OF that] inv that by (auto simp: binv_def pre_inv_def)
  have ok: "pre_inv s2" "core_step s s2" "frame s s2" "mPhase s2 = SCP_PHASE_CONFIRM"
    using committed_follows[OF binv_pre[OF inv] ph s1(1) s2(2) ch val] by simp_all
  have "good drv s (emitCurrentStateStatement drv proc (logCall (AcceptedCommit h) s2))"
    by (rule good_emit_quiet[OF ok(1-3) _ quiet_logCall proc]) (simp_all add: ok(4))
  then have "good drv s (bindE (emitCurrentStateStatement drv proc (logCall (AcceptedCommit h) s2)) (\<lambda>_ s. Inr (True, s)))"
    by (rule good_bind) simp
  then show ?thesis by (simp add: s1(2) s2(1))
qed

lemma attemptAcceptCommit_good:
  assumes "binv s" "proc_ok drv proc (mCurrentMessageLevel s)"
  shows "good drv s (attemptAcceptCommit drv proc hint s)"
proof (cases "acceptCommitHint hint")
  case None
  then show ?thesis using assms by (simp add: attemptAcceptCommit_def)
next
  case (Some ballot)
  define pred where "pred = (\<lambda>cur. federatedAccept drv (votesCommit ballot cur) (commitPredicate ballot cur)
                                (mLatestEnvelopes s))"
  define i where "i = findExtendedInterval (0, 0) (getCommitBoundariesFromStatements ballot s) pred"
  let ?c = "SCPBallot (fst i) (bvalue ballot)" and ?h = "SCPBallot (snd i) (bvalue ballot)"
  have "good drv s (setAcceptCommit drv proc ?c ?h s)"
    if "fst i \<noteq> 0" "mPhase s \<noteq> SCP_PHASE_EXTERNALIZE"
      "mPhase s = SCP_PHASE_CONFIRM \<Longrightarrow>
         \<exists>h0. mHighBallot s = Some h0 \<and> bvalue h0 = bvalue ballot \<and> counter h0 < snd i"
    using findExtendedInterval_ok[OF i_def[symmetric] that(1)] that
    by (intro setAcceptCommit_good[OF assms(1) that(2) _ _ _ assms(2)]) auto
  then show ?thesis
    using assms(1) Some
    by (cases "mPhase s"; cases "mHighBallot s")
      (auto simp: attemptAcceptCommit_def Let_def areBallotsCompatible_def simp flip: pred_def i_def)
qed

section \<open>Externalizing\<close>

lemma quiet_stopNomination: "quiet s (stopNomination s)"
  by (simp add: quiet_def stopNomination_def nomkeep_def)

lemma setConfirmCommit_good:
  assumes inv: "binv s" and ph: "mPhase s = SCP_PHASE_CONFIRM"
    and val: "map_option bvalue (mCommit s) = Some (bvalue h)"
    and ch: "counter c \<le> counter h" "bvalue c = bvalue h"
    and ratified: "federatedRatify drv (commitPredicate h (counter c, counter h)) (mLatestEnvelopes s)"
    and proc: "proc_ok drv proc (mCurrentMessageLevel s)"
  shows "good drv s (setConfirmCommit drv proc c h s)"
proof -
  let ?s1 = "s\<lparr>mCommit := Some c, mHighBallot := Some h\<rparr>"
  have b: "bvalue b = bvalue h" if b: "mCurrentBallot s = Some b" for b
  proof -
    obtain x where x: "mCommit s = Some x" "bvalue x = bvalue h" using val by auto
    then obtain y where "mHighBallot s = Some y" "bvalue y = bvalue x"
      using inv by (cases "mHighBallot s") (simp_all add: binv_def pre_inv_def)
    then show ?thesis using inv x(2) b by (simp add: binv_def pre_inv_def)
  qed
  have "mPreparedPrime s = None" using inv ph by (simp add: binv_def pre_inv_def)
  then have s1: "committed c h s ?s1"
    using ph b by (simp add: committed_def)
  have "mPhase ?s1 \<noteq> SCP_PHASE_EXTERNALIZE" using ph by simp
  then obtain u s2 where s2: "updateCurrentIfNeeded h ?s1 = Inr (u, s2)" "follows h ?s1 s2"
    using updateCurrentIfNeeded_follows by blast
  have "mPhase s \<noteq> SCP_PHASE_EXTERNALIZE" using ph by simp
  note ok = committed_follows[OF binv_pre[OF inv] this s1 s2(2) ch val]
  then have ok: "pre_inv s2" "core_step s s2" "frame s s2" "mPhase s2 = SCP_PHASE_CONFIRM"
    "mCommit s2 = Some c" "mHighBallot s2 = Some h" "mPrepared s2 = mPrepared s"
    by blast+
  let ?s3 = "s2\<lparr>mPhase := SCP_PHASE_EXTERNALIZE\<rparr>"
  have pre3: "pre_inv ?s3" using ok inv ph by (simp add: pre_inv_def binv_def)
  have core3: "core_step s ?s3" using ok(2,4) ph by (simp add: core_step_def)
  have frame3: "frame s ?s3" by (rule frame_trans[OF ok(3) frame_upd(6)])
  have g: "good drv ?s3 (emitCurrentStateStatement drv proc ?s3)"
    by (rule emit_good[OF pre3]) (use proc frame_level[OF frame3] in simp)
  have fin: "binv s' \<and> evolves drv {localNodeID drv} s s'"
    if s4: "binv s4" "evolves drv {localNodeID drv} ?s3 s4"
      and s': "s' = logCall (ValueExternalized (bvalue c)) (stopNomination s4)" for s4 s'
  proof -
    have core4: "core_step ?s3 s4" using s4(2) by (simp only: evolves_unfold)
    have "mCommit s4 = mCommit ?s3 \<and> mHighBallot s4 = mHighBallot ?s3"
      using core4 unfolding core_step_def by simp
    moreover have "mPhase s4 = SCP_PHASE_EXTERNALIZE" by (rule core_step_ext[OF core4]) simp
    ultimately have ext: "mPhase s4 = SCP_PHASE_EXTERNALIZE" "mCommit s4 = Some c" "mHighBallot s4 = Some h"
      using ok(5,6) by simp_all
    have "core_step s s4" by (rule core_step_trans[OF core3 core4])
    then have "core_step s s'" by (simp add: s' logCall_def stopNomination_def core_step_def)
    moreover have "externalize_justified drv s s'"
    proof -
      have "omap_find (mLatestEnvelopes s') n = omap_find (mLatestEnvelopes s) n" if "n \<noteq> localNodeID drv" for n
        using s4(2) frame_latest[OF frame3] that
        by (simp add: evolves_unfold latest_step_def s' logCall_def stopNomination_def)
      moreover have "mCommit s' = Some c" "mHighBallot s' = Some h"
        using ext by (simp_all add: s' logCall_def stopNomination_def)
      ultimately show ?thesis
        unfolding externalize_justified_def using ratified inv[unfolded binv_def pre_inv_def]
        by (intro impI exI[of _ "mLatestEnvelopes s"] exI[of _ c] exI[of _ h]) simp
    qed
    moreover have "calls_step s s'"
    proof -
      obtain cs where cs: "mDriverCalls s4 = mDriverCalls ?s3 @ cs" "filter isExternalized cs = []"
        using s4(2) by (auto simp: evolves_unfold calls_step_def)
      obtain cs' where cs': "mDriverCalls ?s3 = mDriverCalls s @ cs'" "filter isExternalized cs' = []"
        using frame3 by (auto simp: frame_def)
      show ?thesis
        unfolding calls_step_def using cs cs' ph ext
        by (intro exI[of _ "cs' @ cs @ [ValueExternalized (bvalue c)]"])
          (simp add: s' logCall_def stopNomination_def)
    qed
    moreover have "nomkeep s s'"
    proof -
      have "nomkeep ?s3 s4" "nomkeep s ?s3" using s4(2) frame3 by (simp_all add: evolves_def frame_def)
      then have "nomkeep s s4" using nomkeep_trans by blast
      then show ?thesis by (auto simp: s' logCall_def stopNomination_def nomkeep_def)
    qed
    moreover have "claims drv s'" if "claims drv s"
    proof -
      have "claims drv ?s3" using claims_step[OF core3 _ that] frame3 by (simp add: frame_def)
      then have "claims drv s4" using s4(2) by (simp add: evolves_unfold)
      moreover have "core_step s4 s'" "commits s' \<subseteq> commits s4"
        by (simp_all add: s' core_step_def stopNomination_def logCall_def commits_def)
      ultimately show ?thesis using claims_step by blast
    qed
    moreover have "binv s'" using s4(1) by (simp add: s' logCall_def stopNomination_def binv_def pre_inv_def)
    ultimately show ?thesis
      using s4(2) frame3 by (simp add: evolves_unfold frame_def s' logCall_def stopNomination_def)
  qed
  have "post (emitCurrentStateStatement drv proc ?s3) expected_error
      (\<lambda>_ s4. binv s4 \<and> evolves drv {localNodeID drv} ?s3 s4 \<and> mCommit s4 = Some c)"
    using g unfolding good_def
    by (rule post_mono) (use ok(5) in \<open>simp add: evolves_unfold core_step_def\<close>)
  then show ?thesis
    unfolding setConfirmCommit_def s2(1) bindE_simps good_def
  proof (rule post_bindE)
    fix a s4 assume "binv s4 \<and> evolves drv {localNodeID drv} ?s3 s4 \<and> mCommit s4 = Some c"
    then show "post (let s = stopNomination s4 in case mCommit s of None \<Rightarrow> Inl NullDeref
        | Some c \<Rightarrow> Inr (True, logCall (ValueExternalized (bvalue c)) s)) expected_error
      (\<lambda>_ s'. binv s' \<and> evolves drv {localNodeID drv} s s')"
      using fin[OF _ _ refl, of s4] by (simp add: stopNomination_def)
  qed
qed

lemma attemptConfirmCommit_good:
  assumes "binv s" "proc_ok drv proc (mCurrentMessageLevel s)"
  shows "good drv s (attemptConfirmCommit drv proc hint s)"
proof (cases "mPhase s = SCP_PHASE_CONFIRM \<and> confirmCommitHint hint \<noteq> None")
  case False
  then show ?thesis
    using assms(1) by (auto simp: attemptConfirmCommit_def split: option.split)
next
  case True
  then obtain ballot where b: "confirmCommitHint hint = Some ballot" by auto
  obtain c h where ch: "mCommit s = Some c" "mHighBallot s = Some h"
    using True assms(1) by (cases "mCommit s"; cases "mHighBallot s") (auto simp: binv_def pre_inv_def)
  define pred where "pred = (\<lambda>cur. federatedRatify drv (commitPredicate ballot cur) (mLatestEnvelopes s))"
  define i where "i = findExtendedInterval (0, 0) (getCommitBoundariesFromStatements ballot s) pred"
  let ?c = "SCPBallot (fst i) (bvalue ballot)" and ?h = "SCPBallot (snd i) (bvalue ballot)"
  have "good drv s (setConfirmCommit drv proc ?c ?h s)" if "fst i \<noteq> 0" "bvalue ballot = bvalue c"
  proof -
    note io = findExtendedInterval_ok[OF i_def[symmetric] that(1)]
    have "federatedRatify drv (commitPredicate ?h (fst i, snd i)) (mLatestEnvelopes s)"
      using io(1) commitPredicate_value[of ?h ballot i] by (simp add: pred_def)
    then show ?thesis
      using True io(2) that ch by (intro setConfirmCommit_good[OF assms(1) _ _ _ _ _ assms(2)]) auto
  qed
  then show ?thesis
    using True assms(1) ch b
    by (auto simp: attemptConfirmCommit_def Let_def areBallotsCompatible_def simp flip: pred_def i_def)
qed

section \<open>Bumping the ballot\<close>

text \<open>
  A step forward: to a later phase, or to a higher counter in the same phase. Both are bounded, so a
  loop that makes such a step every time ends.
\<close>

definition advances :: "Slot \<Rightarrow> Slot \<Rightarrow> bool" where
  "advances s s' \<longleftrightarrow>
     phaseNum (mPhase s) < phaseNum (mPhase s') \<or>
     mPhase s' = mPhase s \<and> ballotCounter (mCurrentBallot s) < ballotCounter (mCurrentBallot s')"

lemma updateCurrentValue_ok:
  assumes inv: "pre_inv s" and ph: "mPhase s \<noteq> SCP_PHASE_EXTERNALIZE"
    and less: "\<And>b. mCurrentBallot s = Some b \<Longrightarrow> counter b < counter ballot"
  shows "if \<exists>c. mCommit s = Some c \<and> bvalue c \<noteq> bvalue ballot then updateCurrentValue ballot s = Inr (False, s)
    else counter ballot = 0 \<and> (\<exists>e. updateCurrentValue ballot s = Inl e \<and> expected_error e) \<or>
      (\<exists>s1. updateCurrentValue ballot s = Inr (True, s1) \<and> pre_inv s1 \<and> core_step s s1 \<and> bump_rel ballot s s1)"
proof (cases "\<exists>c. mCommit s = Some c \<and> bvalue c \<noteq> bvalue ballot")
  case True
  then obtain c b where "mCommit s = Some c" "bvalue c \<noteq> bvalue ballot" "mCurrentBallot s = Some b"
    using inv by (cases "mHighBallot s"; cases "mCurrentBallot s") (auto simp: pre_inv_def)
  then show ?thesis
    using ph less by (cases "mPhase s") (auto simp: updateCurrentValue_def compareBallots_order areBallotsCompatible_def
        ballot_le_iff less_imp_le not_le)
next
  case False
  then have val: "bvalue c = bvalue ballot" if "mCommit s = Some c" for c
    using that by blast
  have lt: "b < ballot" if "mCurrentBallot s = Some b" for b using less[OF that] by (simp add: ballot_less_iff)
  then have "ballot_le (mCurrentBallot s) (Some ballot)" by (cases "mCurrentBallot s") (simp_all add: less_imp_le)
  then obtain s1 where s1: "bumpToBallot ballot True s = Inr ((), s1)" "bump_rel ballot s s1"
    using bumpToBallot_ok[OF ph, of True ballot] by blast
  have eq: "updateCurrentValue ballot s = bindE (checkInvariants s1) (\<lambda>_ s. Inr (True, s))"
  proof (cases "mCurrentBallot s")
    case None
    then show ?thesis using ph by (cases "mPhase s") (simp_all add: updateCurrentValue_def s1(1))
  next
    case (Some b)
    have "\<not> (case mCommit s of Some c \<Rightarrow> \<not> areBallotsCompatible c ballot | None \<Rightarrow> False)"
      using val by (simp add: areBallotsCompatible_def split: option.split)
    then show ?thesis
      using ph lt[OF Some] Some
      by (cases "mPhase s") (simp_all add: updateCurrentValue_def compareBallots_order s1(1) less_imp_le)
  qed
  have keep: "mCommit s1 = mCommit s" "bvalue h = bvalue ballot" if "mCommit s = Some c" "mHighBallot s = Some h" for c h
    using s1(2) val[OF that(1)] inv that by (simp_all add: bump_rel_def pre_inv_def)
  have lat: "mLatestEnvelopes s1 = mLatestEnvelopes s" using s1(2) by (simp add: bump_rel_def frame_def)
  have pre: "pre_inv s1"
  proof (cases "mHighBallot s")
    case None
    moreover from this have "mCommit s = None" using inv by (cases "mCommit s") (simp_all add: pre_inv_def)
    ultimately show ?thesis using inv s1(2) lat by (simp add: bump_rel_def pre_inv_def)
  next
    case (Some h)
    then obtain b where b: "mCurrentBallot s = Some b" "counter h \<le> counter b" "bvalue h = bvalue b"
      using inv by (cases "mCurrentBallot s") (simp_all add: pre_inv_def)
    have "counter h \<le> counter ballot" using b(2) less[OF b(1)] by simp
    then show ?thesis
      using inv s1(2) lat Some val by (cases "mCommit s") (simp_all add: bump_rel_def pre_inv_def Let_def)
  qed
  have "map_option bvalue (mCommit s1) = map_option bvalue (mCommit s)" if "mPhase s \<noteq> SCP_PHASE_PREPARE"
    using inv that keep(1) by (cases "mCommit s"; cases "mHighBallot s") (simp_all add: pre_inv_def)
  then have core: "core_step s s1"
    using s1(2) ph \<open>ballot_le (mCurrentBallot s) (Some ballot)\<close> by (simp add: core_step_def bump_rel_def)
  show ?thesis
    using checkInvariants_cases[OF pre] pre core s1(2) False
    by (cases "counter ballot = 0") (auto simp: eq bump_rel_def)
qed

lemma advancesI:
  assumes "mPhase s1 = mPhase s" "mCurrentBallot s1 = Some ballot" "ballotCounter (mCurrentBallot s) < counter ballot"
    and "core_step s1 s'"
  shows "advances s s'"
proof (cases "mPhase s' = mPhase s1")
  case True
  then obtain b where "mCurrentBallot s' = Some b" "ballot \<le> b"
    using assms(2,4) by (cases "mCurrentBallot s'") (simp_all add: core_step_def)
  then show ?thesis
    using True assms(1,3) by (auto simp: advances_def ballotCounter_def ballot_le_iff)
next
  case False
  then have "phaseNum (mPhase s1) < phaseNum (mPhase s')"
    using assms(4) by (simp add: core_step_def le_less phaseNum_inject)
  then show ?thesis using assms(1) by (simp add: advances_def)
qed

lemma bumpStateTo_post:
  assumes inv: "binv s" and proc: "proc_ok drv proc (mCurrentMessageLevel s)"
    and less: "mCurrentBallot s \<noteq> None \<Longrightarrow> ballotCounter (mCurrentBallot s) < n"
  shows "post (bumpStateTo drv proc v n s) expected_error
    (\<lambda>r s'. binv s' \<and> evolves drv {localNodeID drv} s s' \<and> (r \<and> n \<noteq> 0 \<longrightarrow> advances s s'))"
proof (cases "mPhase s = SCP_PHASE_EXTERNALIZE")
  case True
  then show ?thesis using inv by (simp add: bumpStateTo_def)
next
  case False
  define newb where "newb = SCPBallot n (case mValueOverride s of Some z \<Rightarrow> z | None \<Rightarrow> v)"
  have lt: "counter b < counter newb" if "mCurrentBallot s = Some b" for b
    using less that by (simp add: ballotCounter_def newb_def)
  have cnt: "ballotCounter (mCurrentBallot s) < counter newb" if "n \<noteq> 0"
    using less that by (cases "mCurrentBallot s") (simp_all add: ballotCounter_def newb_def word_gt_0)
  have eq: "bumpStateTo drv proc v n s =
      bindE (updateCurrentValue newb s) (\<lambda>updated s.
          if updated then
            bindE (emitCurrentStateStatement drv proc s) (\<lambda>_ s. Inr (True, checkHeardFromQuorum drv s))
          else Inr (False, s))"
    using False by (cases "mPhase s") (simp_all add: bumpStateTo_def newb_def Let_def)
  consider "updateCurrentValue newb s = Inr (False, s)"
    | e where "updateCurrentValue newb s = Inl e" "expected_error e"
    | s1 where "updateCurrentValue newb s = Inr (True, s1)" "pre_inv s1" "core_step s s1" "frame s s1"
       "mPhase s1 = mPhase s" "mCurrentBallot s1 = Some newb"
    using updateCurrentValue_ok[OF binv_pre[OF inv] False lt] unfolding bump_rel_def
    by (cases "\<exists>c. mCommit s = Some c \<and> bvalue c \<noteq> bvalue newb") (simp_all only: if_True if_False, blast+)
  then show ?thesis
  proof cases
    case (3 s1)
    have ev1: "evolves drv {localNodeID drv} s s1"
      by (rule frame_evolves[OF 3(4) 3(3)]) (simp add: 3(5) False)
    have "good drv s1 (emitCurrentStateStatement drv proc s1)"
      by (rule emit_good[OF 3(2)]) (use proc frame_level[OF 3(4)] in simp)
    then show ?thesis
      unfolding eq 3(1) bindE_simps if_True good_def
    proof (rule post_bindE)
      fix a s2 assume s2: "binv s2 \<and> evolves drv {localNodeID drv} s1 s2"
      note q = quiet_checkHeardFromQuorum[of s2 drv]
      have ev: "evolves drv {localNodeID drv} s1 (checkHeardFromQuorum drv s2)"
        using evolves_local_trans s2 quiet_evolves[OF q] by blast
      then have "core_step s1 (checkHeardFromQuorum drv s2)" by (simp only: evolves_unfold)
      then have adv: "advances s (checkHeardFromQuorum drv s2)" if "n \<noteq> 0"
        using advancesI[OF 3(5,6)] cnt[OF that] by blast
      show "post (Inr (True, checkHeardFromQuorum drv s2)) expected_error
        (\<lambda>r s'. binv s' \<and> evolves drv {localNodeID drv} s s' \<and> (r \<and> n \<noteq> 0 \<longrightarrow> advances s s'))"
        using evolves_local_trans[OF ev1 ev] adv s2 quiet_binv[OF q] by simp
    qed
  qed (use inv in \<open>simp_all add: eq\<close>)
qed

lemma allCounters_gt:
  assumes "n \<in> set (allCounters m l)"
  shows "l < n"
proof -
  have "\<forall>x \<in> set (allCounters m l). l < x"
    unfolding allCounters_def
    by (rule fold_invariant[where Q = "\<lambda>_. True"]) (simp_all add: Let_def split: prod.split)
  then show ?thesis using assms by blast
qed

lemma attemptBump_post:
  assumes inv: "binv s" and proc: "proc_ok drv proc (mCurrentMessageLevel s)"
  shows "post (attemptBump drv proc s) expected_error
    (\<lambda>r s'. binv s' \<and> evolves drv {localNodeID drv} s s' \<and> (r \<longrightarrow> advances s s'))"
proof -
  let ?P = "\<lambda>r s'. binv s' \<and> evolves drv {localNodeID drv} s s' \<and> (r \<longrightarrow> advances s s')"
  have *: "post (bumpStateTo drv proc v n s) expected_error ?P"
    if "n \<in> set (allCounters (mLatestEnvelopes s) (ballotCounter (mCurrentBallot s)))" for v n
  proof -
    have "ballotCounter (mCurrentBallot s) < n" by (rule allCounters_gt[OF that])
    moreover from this have "n \<noteq> 0" by auto
    ultimately show ?thesis using bumpStateTo_post[OF inv proc, of n v] by simp
  qed
  have ab: "post (abandonBallot drv proc n s) expected_error ?P"
    if "n \<in> set (allCounters (mLatestEnvelopes s) (ballotCounter (mCurrentBallot s)))" for n
  proof -
    have "n \<noteq> 0" using allCounters_gt[OF that] by auto
    then show ?thesis
      using *[OF that] inv by (simp add: abandonBallot_def Let_def split: option.split)
  qed
  show ?thesis
  proof (cases "find (\<lambda>n. \<not> hasVBlockingSubsetStrictlyAheadOf drv (mLatestEnvelopes s) n)
      (allCounters (mLatestEnvelopes s) (ballotCounter (mCurrentBallot s)))")
    case None
    then show ?thesis using inv by (simp add: attemptBump_def Let_def)
  next
    case (Some n)
    then have "n \<in> set (allCounters (mLatestEnvelopes s) (ballotCounter (mCurrentBallot s)))"
      by (auto simp: find_Some_iff)
    from ab[OF this] show ?thesis using Some inv by (simp add: attemptBump_def Let_def)
  qed
qed

definition bump_measure :: "(Slot \<times> Slot) set" where
  "bump_measure = inv_image (less_than <*lex*> less_than)
     (\<lambda>s. (2 - phaseNum (mPhase s), 2 ^ 32 - unat (ballotCounter (mCurrentBallot s))))"

lemma wf_bump_measure: "wf bump_measure"
  unfolding bump_measure_def by (rule wf_inv_image[OF wf_lex_prod[OF wf_less_than wf_less_than]])

lemma advances_measure: "advances s s' \<Longrightarrow> (s', s) \<in> bump_measure"
proof -
  assume a: "advances s s'"
  have ph: "phaseNum (mPhase s') \<le> 2" by (cases "mPhase s'") simp_all
  have "unat (ballotCounter (mCurrentBallot s')) < 2 ^ 32"
    using unsigned_less[of "ballotCounter (mCurrentBallot s')"] by simp
  moreover have "unat (ballotCounter (mCurrentBallot s)) < unat (ballotCounter (mCurrentBallot s'))"
    if "mPhase s' = mPhase s"
    using a that by (simp add: advances_def word_less_nat_alt)
  ultimately show "(s', s) \<in> bump_measure"
    using a ph by (auto simp: bump_measure_def advances_def in_lex_prod)
qed

text \<open>The loop around \<^verbatim>\<open>attemptBump\<close> ends.\<close>

lemma bumpLoop_ends:
  assumes "binv s" "proc_ok drv proc (mCurrentMessageLevel s)"
  shows "\<exists>r. bumpLoop drv proc d s = Some r \<and> good drv s r"
  using assms
proof (induction s arbitrary: d rule: wf_induct_rule[OF wf_bump_measure])
  case (1 s)
  note post = attemptBump_post[OF 1(2,3)]
  show ?case
  proof (cases "attemptBump drv proc s")
    case (Inl e)
    then show ?thesis using post by (simp add: bumpLoop.simps)
  next
    case (Inr x)
    obtain b s' where x: "x = (b, s')" by (cases x)
    have s': "binv s'" "evolves drv {localNodeID drv} s s'" "b \<Longrightarrow> advances s s'"
      using post by (simp_all add: Inr x)
    show ?thesis
    proof (cases b)
      case True
      have "proc_ok drv proc (mCurrentMessageLevel s')" using 1(3) evolves_level[OF s'(2)] by simp
      then obtain r where "bumpLoop drv proc True s' = Some r" "good drv s' r"
        using 1(1)[OF advances_measure[OF s'(3)[OF True]] s'(1)] by blast
      then show ?thesis
        using good_trans[OF s'(2)] True by (simp add: bumpLoop.simps[of _ _ _ s] Inr x)
    next
      case False
      then show ?thesis using s' by (simp add: bumpLoop.simps[of _ _ _ s] Inr x)
    qed
  qed
qed

section \<open>Advancing the slot\<close>

lemma good_post_bind:
  assumes "good drv s m"
    and "\<And>a s'. binv s' \<Longrightarrow> evolves drv {localNodeID drv} s s' \<Longrightarrow> post (f a s') expected_error Q"
  shows "post (bindE m f) expected_error Q"
  using assms(1) unfolding good_def by (rule post_bindE) (use assms(2) in blast)

lemma evolves_unlevel:
  assumes "evolves drv X (s\<lparr>mCurrentMessageLevel := l\<rparr>) s'"
  shows "evolves drv X s (s'\<lparr>mCurrentMessageLevel := mCurrentMessageLevel s\<rparr>)"
  using assms by (simp add: evolves_unfold core_step_def externalize_justified_def calls_step_def
      split del: if_split cong del: if_weak_cong)

lemma binv_level [simp]: "binv (s\<lparr>mCurrentMessageLevel := l\<rparr>) = binv s"
  by (simp add: binv_def pre_inv_def)

lemma advanceSlot_good:
  assumes inv: "binv s"
    and proc: "Suc (mCurrentMessageLevel s) < MAX_ADVANCE_SLOT_RECURSION \<Longrightarrow> proc_ok drv proc (Suc (mCurrentMessageLevel s))"
  shows "good drv s (advanceSlot drv proc hint s)"
proof (cases "Suc (mCurrentMessageLevel s) < MAX_ADVANCE_SLOT_RECURSION")
  case False
  then show ?thesis by (simp add: advanceSlot_def)
next
  case True
  define s0 where "s0 = s\<lparr>mCurrentMessageLevel := Suc (mCurrentMessageLevel s)\<rparr>"
  have s0: "binv s0" "proc_ok drv proc (mCurrentMessageLevel s0)"
    using inv proc[OF True] by (simp_all add: s0_def)
  let ?E = "\<lambda>s'. binv s' \<and> evolves drv {localNodeID drv} s0 s'"
  have fin: "good drv s (Inr ((), if d then sendLatestEnvelope (s'\<lparr>mCurrentMessageLevel := mCurrentMessageLevel s' - 1\<rparr>)
      else s'\<lparr>mCurrentMessageLevel := mCurrentMessageLevel s' - 1\<rparr>))" if "?E s'" for d s'
  proof -
    let ?s = "s'\<lparr>mCurrentMessageLevel := mCurrentMessageLevel s' - 1\<rparr>"
    have "mCurrentMessageLevel s' = Suc (mCurrentMessageLevel s)"
      using that evolves_level[of drv "{localNodeID drv}" s0 s'] by (simp add: s0_def)
    then have ev: "evolves drv {localNodeID drv} s ?s"
      using that evolves_unlevel[of drv "{localNodeID drv}" "Suc (mCurrentMessageLevel s)" s s'] by (simp add: s0_def)
    note q = quiet_sendLatestEnvelope[of ?s]
    show ?thesis
      using ev that quiet_binv[OF q] evolves_local_trans[OF ev quiet_evolves[OF q]] by simp
  qed
  have loop: "good drv s' (if mCurrentMessageLevel s' = 1 then
             bindE (case bumpLoop drv proc d s' of None \<Rightarrow> Inl Diverges | Some r \<Rightarrow> r)
               (\<lambda>didWork s. Inr (didWork, checkHeardFromQuorum drv s))
           else Inr (d, s'))" if E: "?E s'" for d s'
  proof -
    have "proc_ok drv proc (mCurrentMessageLevel s')"
      using s0(2) evolves_level[of drv "{localNodeID drv}" s0 s'] that by simp
    then obtain r where r: "bumpLoop drv proc d s' = Some r" "good drv s' r"
      using bumpLoop_ends[of s' drv proc d] E by blast
    have "good drv s' (bindE r (\<lambda>didWork s. Inr (didWork, checkHeardFromQuorum drv s)))"
      using r(2) by (rule good_bind)
        (simp add: quiet_binv[OF quiet_checkHeardFromQuorum] quiet_evolves[OF quiet_checkHeardFromQuorum])
    then show ?thesis using E by (simp add: r(1))
  qed
  have step: "post (bindE m f) expected_error Q"
    if "?E s'" "good drv s' m" "\<And>a s''. ?E s'' \<Longrightarrow> post (f a s'') expected_error Q"
    for m :: "'c res" and f :: "'c \<Rightarrow> Slot \<Rightarrow> unit res" and s' Q
    using that(2) by (rule good_post_bind) (use that evolves_local_trans in blast)
  have pr: "proc_ok drv proc (mCurrentMessageLevel s')" if "?E s'" for s'
    using s0(2) evolves_level[of drv "{localNodeID drv}" s0 s'] that by simp
  have eq: "advanceSlot drv proc hint s =
        bindE (attemptAcceptPrepared drv proc hint s0) (\<lambda>w1 s.
        bindE (attemptConfirmPrepared drv proc hint s) (\<lambda>w2 s.
        bindE (attemptAcceptCommit drv proc hint s) (\<lambda>w3 s.
        bindE (attemptConfirmCommit drv proc hint s) (\<lambda>w4 s.
        bindE
          (if mCurrentMessageLevel s = 1 then
             bindE (case bumpLoop drv proc (w1 \<or> w2 \<or> w3 \<or> w4) s of None \<Rightarrow> Inl Diverges | Some r \<Rightarrow> r)
               (\<lambda>didWork s. Inr (didWork, checkHeardFromQuorum drv s))
           else Inr (w1 \<or> w2 \<or> w3 \<or> w4, s))
          (\<lambda>didWork s. Inr ((), if didWork then sendLatestEnvelope (s\<lparr>mCurrentMessageLevel := mCurrentMessageLevel s - 1\<rparr>)
             else s\<lparr>mCurrentMessageLevel := mCurrentMessageLevel s - 1\<rparr>))))))"
    using True unfolding advanceSlot_def Let_def s0_def by simp
  have e0: "?E s0" using s0(1) by simp
  show ?thesis
    unfolding eq good_def
    by (rule step[OF e0 attemptAcceptPrepared_good], simp_all add: s0 del: One_nat_def)
       (rule step, assumption, rule attemptConfirmPrepared_good, blast, erule pr,
        rule step, assumption, rule attemptAcceptCommit_good, blast, erule pr,
        rule step, assumption, rule attemptConfirmCommit_good, blast, erule pr,
        rule step, assumption, erule loop, erule fin[unfolded good_def])
qed

section \<open>Processing an envelope\<close>

lemma evolves_widen: "evolves drv X s s' \<Longrightarrow> X \<subseteq> Y \<Longrightarrow> evolves drv Y s s'"
  by (auto simp: evolves_unfold latest_step_def)

definition record_in :: "SCPEnvelope \<Rightarrow> bool \<Rightarrow> Slot \<Rightarrow> Slot" where
  "record_in e d s = recordEnvelope e (if d then setFullyValidated False s else s)"

lemma record_in_simps [simp]:
  "mPhase (record_in e d s) = mPhase s" "mSlotIndex (record_in e d s) = mSlotIndex s"
  "mCurrentMessageLevel (record_in e d s) = mCurrentMessageLevel s"
  "mLatestEnvelopes (record_in e d s) = omap_insert (nodeID (stmt e)) e (mLatestEnvelopes s)"
  "mCommit (record_in e d s) = mCommit s" "mHighBallot (record_in e d s) = mHighBallot s"
  "mCurrentBallot (record_in e d s) = mCurrentBallot s" "mPrepared (record_in e d s) = mPrepared s"
  "mPreparedPrime (record_in e d s) = mPreparedPrime s" "mDriverCalls (record_in e d s) = mDriverCalls s"
  "mFullyValidated (record_in e d s) = (mFullyValidated s \<and> \<not> d)"
  "mNomination (record_in e d s) = mNomination s" "commits (record_in e d s) = commits s"
  by (simp_all add: record_in_def recordEnvelope_def recordStatement_def setFullyValidated_def)

lemma latest_ok_insert:
  assumes "latest_ok m" "pledgesType (pledges (stmt e)) < 3"
  shows "latest_ok (omap_insert (nodeID (stmt e)) e m)"
proof -
  have srt: "omap_sorted m" using assms(1) by (simp add: latest_ok_def)
  show ?thesis
    using assms om.invar_ins[OF srt] unfolding latest_ok_def
    by (auto simp: om.entries_ins[OF srt] split: if_splits)
qed

lemma record_in_ok:
  assumes inv: "binv s" and new: "isNewerStatement (nodeID (stmt e)) (stmt e) s"
    and ty: "pledgesType (pledges (stmt e)) < 3"
  shows "binv (record_in e d s)" "evolves drv {nodeID (stmt e)} s (record_in e d s)"
proof -
  have lat: "latest_ok (mLatestEnvelopes s)" using inv by (simp add: binv_def pre_inv_def)
  then have srt: "omap_sorted (mLatestEnvelopes s)" by (simp add: latest_ok_def)
  show "binv (record_in e d s)"
    using inv latest_ok_insert[OF lat ty] by (simp add: binv_def pre_inv_def)
  have "latest_step {nodeID (stmt e)} (mLatestEnvelopes s) (mLatestEnvelopes (record_in e d s))"
    using new by (auto simp: latest_step_def om.look_ins[OF srt] isNewerStatement_def)
  moreover have "claims drv s \<longrightarrow> claims drv (record_in e d s)"
    using claims_step[of s "record_in e d s" drv] by (simp add: core_step_def)
  ultimately show "evolves drv {nodeID (stmt e)} s (record_in e d s)"
    by (simp add: evolves_unfold core_step_def externalize_justified_def calls_step_def)
qed

definition processed :: "SCPDriver \<Rightarrow> SCPEnvelope \<Rightarrow> Slot \<Rightarrow> EnvelopeState res \<Rightarrow> bool" where
  "processed drv e s m \<longleftrightarrow>
     post m expected_error (\<lambda>r s'. binv s' \<and> evolves drv {localNodeID drv, nodeID (stmt e)} s s' \<and>
       (r = INVALID \<longrightarrow> s' = s) \<and>
       (r = VALID \<and> nodeID (stmt e) \<noteq> localNodeID drv \<longrightarrow>
          omap_find (mLatestEnvelopes s') (nodeID (stmt e)) = Some e))"

lemma processed_advance:
  assumes inv: "binv s" and ty: "pledgesType (pledges (stmt e)) < 3"
    and new: "isNewerStatement (nodeID (stmt e)) (stmt e) s"
    and adv: "good drv (record_in e d s) m"
  shows "processed drv e s (bindE m (\<lambda>_ s. Inr (VALID, s)))"
  unfolding processed_def
proof (rule good_post_bind[OF adv])
  fix a s' assume s': "binv s'" "evolves drv {localNodeID drv} (record_in e d s) s'"
  have srt: "omap_sorted (mLatestEnvelopes s)" using inv by (simp add: binv_def pre_inv_def latest_ok_def)
  have "omap_find (mLatestEnvelopes s') (nodeID (stmt e)) = Some e" if "nodeID (stmt e) \<noteq> localNodeID drv"
    using s'(2) that om.look_ins[OF srt] by (simp add: evolves_unfold latest_step_def)
  then show "post (Inr (VALID, s')) expected_error (\<lambda>r s'. binv s' \<and> evolves drv {localNodeID drv, nodeID (stmt e)} s s' \<and>
       (r = INVALID \<longrightarrow> s' = s) \<and>
       (r = VALID \<and> nodeID (stmt e) \<noteq> localNodeID drv \<longrightarrow>
          omap_find (mLatestEnvelopes s') (nodeID (stmt e)) = Some e))"
    using s'(1) evolves_trans[OF record_in_ok(2)[OF inv new ty] s'(2)] by simp
qed

lemma processEnvelopeWith_processed:
  assumes inv: "binv s" and sl: "slotIndex (stmt e) = mSlotIndex s" and ty: "pledgesType (pledges (stmt e)) < 3"
    and proc: "Suc (mCurrentMessageLevel s) < MAX_ADVANCE_SLOT_RECURSION \<Longrightarrow> proc_ok drv proc (Suc (mCurrentMessageLevel s))"
  shows "processed drv e s (processEnvelopeWith drv proc e self s)"
proof -
  have "isStatementSane drv (stmt e) self \<noteq> Inl x" for x
    using ty by (cases "pledges (stmt e)") (simp_all add: isStatementSane_def pledgesType_def)
  then obtain b where sane: "isStatementSane drv (stmt e) self = Inr b"
    by (cases "isStatementSane drv (stmt e) self") auto
  have same: "processed drv e s (Inr (INVALID, s))" using inv by (simp add: processed_def)
  show ?thesis
  proof (cases "b \<and> isNewerStatement (nodeID (stmt e)) (stmt e) s \<and> validateValues drv s (stmt e) \<noteq> kInvalidValue")
    case False
    then show ?thesis using sl same by (auto simp: processEnvelopeWith_def sane Let_def)
  next
    case True
    then have new: "isNewerStatement (nodeID (stmt e)) (stmt e) s" by simp
    show ?thesis
    proof (cases "mPhase s = SCP_PHASE_EXTERNALIZE")
      case False
      define d where "d \<longleftrightarrow> validateValues drv s (stmt e) = kMaybeValidValue"
      have "good drv (record_in e d s) (advanceSlot drv proc (stmt e) (record_in e d s))"
        by (rule advanceSlot_good[OF record_in_ok(1)[OF inv new ty]]) (use proc in simp)
      moreover have "processEnvelopeWith drv proc e self s =
          bindE (advanceSlot drv proc (stmt e) (record_in e d s)) (\<lambda>_ s. Inr (VALID, s))"
        using True False sl by (simp add: processEnvelopeWith_def sane Let_def record_in_def d_def)
      ultimately show ?thesis using processed_advance[OF inv ty new] by simp
    next
      case ext: True
      then obtain c where c: "mCommit s = Some c" using inv by (auto simp: binv_def pre_inv_def)
      have "good drv (record_in e False s) (Inr ((), record_in e False s))"
        using record_in_ok(1)[OF inv new ty] by simp
      from processed_advance[OF inv ty new this]
      have "processed drv e s (Inr (VALID, recordEnvelope e s))" by (simp add: record_in_def)
      then show ?thesis
        using True ext sl same by (simp add: processEnvelopeWith_def sane Let_def c)
    qed
  qed
qed

text \<open>
  Fifty levels of nested statements are enough: at level \<open>L\<close> with \<open>n\<close> levels of fuel left and
  \<open>50 \<le> L + n\<close> the fuel does not run out, because \<^verbatim>\<open>advanceSlot\<close> gives up at level 50.
\<close>

lemma processEnvelopeN_ok:
  assumes "L < MAX_ADVANCE_SLOT_RECURSION" "MAX_ADVANCE_SLOT_RECURSION \<le> L + n"
    and "binv s" "mCurrentMessageLevel s = L"
    and "slotIndex (stmt e) = mSlotIndex s" "pledgesType (pledges (stmt e)) < 3"
  shows "processed drv e s (processEnvelopeN n drv e self s)"
  using assms
proof (induction n arbitrary: L e s self)
  case (Suc n)
  have "proc_ok drv (\<lambda>e. processEnvelopeN n drv e True) (Suc L)" if "Suc L < MAX_ADVANCE_SLOT_RECURSION"
    unfolding proc_ok_def
  proof (intro allI impI)
    fix e s assume s: "binv s \<and> mCurrentMessageLevel s = Suc L \<and> own_envelope drv s e"
    then have "processed drv e s (processEnvelopeN n drv e True s)"
      using Suc.IH[of "Suc L" s e True] that Suc.prems(2) by (simp add: own_envelope_def)
    then show "good drv s (processEnvelopeN n drv e True s)"
      unfolding processed_def good_def
      by (rule post_mono) (use s in \<open>simp add: own_envelope_def\<close>)
  qed
  then show ?case
    using processEnvelopeWith_processed[OF Suc.prems(3,5,6)] Suc.prems(4) by simp
qed simp

section \<open>Bumping from outside\<close>

lemma processEnvelopeN_proc_ok:
  assumes "L < MAX_ADVANCE_SLOT_RECURSION" "MAX_ADVANCE_SLOT_RECURSION \<le> L + n"
  shows "proc_ok drv (\<lambda>e. processEnvelopeN n drv e True) L"
  unfolding proc_ok_def
proof (intro allI impI)
  fix e s assume s: "binv s \<and> mCurrentMessageLevel s = L \<and> own_envelope drv s e"
  then have "processed drv e s (processEnvelopeN n drv e True s)"
    using processEnvelopeN_ok[OF assms, of s e drv True] by (simp add: own_envelope_def)
  then show "good drv s (processEnvelopeN n drv e True s)"
    unfolding processed_def good_def
    by (rule post_mono) (use s in \<open>simp add: own_envelope_def\<close>)
qed

lemma selfProc_ok: "L < MAX_ADVANCE_SLOT_RECURSION \<Longrightarrow> proc_ok drv (selfProc drv) L"
  using processEnvelopeN_proc_ok[of L MAX_ADVANCE_SLOT_RECURSION drv]
  by (simp add: selfProc_def[abs_def] processBallotEnvelope_def[abs_def])

text \<open>Bumping from the highest counter wraps around to 0 and trips an assertion.\<close>

definition at_max :: "Slot \<Rightarrow> bool" where
  "at_max s \<longleftrightarrow> mPhase s \<noteq> SCP_PHASE_EXTERNALIZE \<and> ballotCounter (mCurrentBallot s) = UINT32_MAX"

lemma bumpStateTo_wraps:
  assumes "at_max s"
  shows "bumpStateTo drv proc v 0 s = Inl AssertCurrentMonotone"
proof -
  obtain b where b: "mCurrentBallot s = Some b" "counter b = UINT32_MAX"
    using assms by (cases "mCurrentBallot s") (simp_all add: at_max_def ballotCounter_def)
  have "\<not> b \<le> SCPBallot 0 x" for x using b(2) by (simp add: ballot_le_iff)
  then have "updateCurrentValue (SCPBallot 0 x) s = Inl AssertCurrentMonotone" for x
    using assms b(1) by (cases "mPhase s") (simp_all add: updateCurrentValue_def at_max_def compareBallots_order)
  then show ?thesis
    using assms by (cases "mPhase s") (simp_all add: bumpStateTo_def at_max_def Let_def)
qed

lemma word_Suc_greater: "(w :: uint32) \<noteq> UINT32_MAX \<Longrightarrow> w < w + 1"
proof -
  assume "w \<noteq> UINT32_MAX"
  then have "uint w \<noteq> uint UINT32_MAX" by (simp only: word_uint_eq_iff not_False_eq_True)
  then have "uint w + 1 < 2 ^ 32" using uint_lt2p[of w] by simp
  then have "uint (w + 1) = uint w + 1" by (simp add: uint_word_ariths)
  then show "w < w + 1" by (simp add: word_less_def)
qed

lemma UINT32_wraps: "UINT32_MAX + 1 = 0"
  by (simp only: word_uint_eq_iff) (simp add: uint_word_ariths)

lemma bumpState_post:
  assumes inv: "binv s" and proc: "proc_ok drv proc (mCurrentMessageLevel s)"
    and max: "force \<Longrightarrow> \<not> at_max s"
  shows "good drv s (bumpState drv proc v force s)"
proof (cases "mPhase s = SCP_PHASE_EXTERNALIZE \<or> \<not> force \<and> mCurrentBallot s \<noteq> None")
  case True
  then show ?thesis using inv by (auto simp: bumpState_def bumpStateTo_def)
next
  case False
  let ?n = "case mCurrentBallot s of Some b \<Rightarrow> counter b + 1 | None \<Rightarrow> 1"
  have lt: "ballotCounter (mCurrentBallot s) < ?n" if "mCurrentBallot s \<noteq> None"
    using False max that word_Suc_greater
    by (cases "mCurrentBallot s") (auto simp: at_max_def ballotCounter_def)
  have "good drv s (bumpStateTo drv proc v ?n s)"
    unfolding good_def
    by (rule post_mono[OF bumpStateTo_post[OF inv proc lt]]) simp_all
  then show ?thesis using False by (auto simp: bumpState_def)
qed

lemma abandonBallot_good:
  assumes "binv s" "proc_ok drv proc (mCurrentMessageLevel s)" "\<not> at_max s"
  shows "good drv s (abandonBallot drv proc 0 s)"
  using assms bumpState_post[OF assms(1,2), of True]
  by (simp add: abandonBallot_def Let_def split: option.split)

lemma bumpState_wraps:
  assumes "at_max s"
  shows "bumpState drv proc v True s = Inl AssertCurrentMonotone"
proof -
  obtain b where b: "mCurrentBallot s = Some b" "counter b = UINT32_MAX"
    using assms by (cases "mCurrentBallot s") (simp_all add: at_max_def ballotCounter_def)
  have "bumpState drv proc v True s = bumpStateTo drv proc v (UINT32_MAX + 1) s"
    unfolding b(2)[symmetric] by (simp add: bumpState_def b(1))
  then show ?thesis using bumpStateTo_wraps[OF assms] by (simp only: UINT32_wraps)
qed

lemma abandonBallot_wraps:
  assumes "at_max s"
  shows "abandonBallot drv proc 0 s \<in> {Inr (False, s), Inl AssertCurrentMonotone}"
  by (simp add: abandonBallot_def Let_def bumpState_wraps[OF assms] split: option.split)

end
