(* ===== verification/QuorumBlocking.thy ===== *)
theory QuorumBlocking
  imports QuorumSpec
begin

text \<open>
  The node weights and the closest blocking set of \<^verbatim>\<open>LocalNode.cpp\<close>: weights are positive exactly
  for the nodes a sane quorum set names, and \<^verbatim>\<open>findClosestVBlocking\<close> returns a smallest set of live
  nodes whose loss blocks the quorum set.
\<close>

section \<open>Visiting and weighing nodes\<close>

lemma forAllValidators_append:
  "forAllValidators proc (xs @ ys) s =
     (let (ok, s') = forAllValidators proc xs s
      in if \<not> ok then (False, s') else forAllValidators proc ys s')"
proof (induction proc xs s rule: forAllValidators.induct)
  case (2 proc n ns s)
  then show ?case by (cases "proc n s") simp
qed simp

lemma forAllNodes_nodes:
  "forAllNodes q proc s = forAllValidators proc (qset_nodes q) s"
  "forAllInner qs proc s = forAllValidators proc (concat (map qset_nodes qs)) s"
proof (induction q proc s and qs proc s rule: forAllNodes_forAllInner.induct)
  case (1 t vs qs proc s)
  then show ?case
    by (cases "forAllValidators proc vs s") (simp add: forAllValidators_append)
next
  case (3 q qs proc s)
  then show ?case
    by (cases "forAllValidators proc (qset_nodes q) s") (simp add: forAllValidators_append)
qed simp

lemma int_unat: "int (unat w) = uint (w :: 'a::len word)"
  by simp

lemma computeWeight_ok:
  assumes "0 < uint n" "uint n \<le> uint d"
  shows "\<exists>w. computeWeight m d n = Inr w \<and> (w = 0 \<longleftrightarrow> m = 0)"
proof -
  have d: "0 < uint d" using assms by simp
  define x where "x = div_round (uint m * uint n) (uint d) ROUND_UP"
  have x0: "0 \<le> x" unfolding x_def by (rule div_round_nonneg) (use d in auto)
  have "x \<le> div_round (uint m * uint d) (uint d) ROUND_UP"
    unfolding x_def by (rule div_round_mono[OF _ d]) (use assms in \<open>simp add: mult_left_mono\<close>)
  then have xm: "x \<le> uint m" using div_round_exact[OF d, of "uint m" ROUND_UP] by simp
  then have xw: "uint (word_of_int x :: uint64) = x"
    using x0 uint_bounded[of m] by (simp add: uint_word_of_int)
  have "x = 0 \<longleftrightarrow> uint m = 0"
  proof
    assume "x = 0"
    then have "uint m * uint n \<le> 0" using div_round_up_ge[OF d, of "uint m * uint n"] by (simp add: x_def)
    then show "uint m = 0" using assms(1) by (simp add: mult_le_0_iff)
  qed (use xm x0 in simp)
  then have "(word_of_int x :: uint64) = 0 \<longleftrightarrow> m = 0"
    using xw by (metis uint_0_iff)
  moreover have "computeWeight m d n = Inr (word_of_int x)"
    using assms by (simp add: computeWeight_def word_le_def bigDivide_u64_exact[OF d] x_def del: div_round_simps)
  ultimately show ?thesis by blast
qed

lemma getInnerWeight_ok:
  assumes "0 < uint d0" "uint d0 \<le> uint d"
    and "\<And>q. q \<in> set qs \<Longrightarrow> \<exists>w. getNodeWeight n q = Inr w \<and> (w \<noteq> 0 \<longleftrightarrow> n \<in> set (qset_nodes q))"
  shows "\<exists>w. getInnerWeight n d d0 qs = Inr w \<and> (w \<noteq> 0 \<longleftrightarrow> n \<in> set (concat (map qset_nodes qs)))"
  using assms(3)
proof (induction qs)
  case (Cons q qs)
  then obtain w where w: "getNodeWeight n q = Inr w" "w \<noteq> 0 \<longleftrightarrow> n \<in> set (qset_nodes q)" by force
  from Cons obtain w' where "getInnerWeight n d d0 qs = Inr w'"
    "w' \<noteq> 0 \<longleftrightarrow> n \<in> set (concat (map qset_nodes qs))" by force
  with w computeWeight_ok[OF assms(1,2), of w] show ?case by auto
qed simp

lemma getNodeWeight_ok:
  "small_ok q \<Longrightarrow> \<exists>w. getNodeWeight n q = Inr w \<and> (w \<noteq> 0 \<longleftrightarrow> n \<in> set (qset_nodes q))"
proof (induction q)
  case (SCPQuorumSet t vs qs)
  note b = small_ok_simps[OF SCPQuorumSet.prems]
  define d where "d = (of_nat (length qs + length vs) :: uint64)"
  have "unat d = length qs + length vs"
    unfolding d_def by (rule unat_of_nat_less) (use b(3) in simp)
  then have d: "uint d = int (length qs + length vs)"
    using int_unat[of d] by simp
  have t: "uint (ucast t :: uint64) = uint t"
    by (rule uint_up_ucast) (simp add: is_up)
  have t': "uint t = int (unat t)" by simp
  have range: "0 < uint (ucast t :: uint64)" "uint (ucast t :: uint64) \<le> uint d"
    using b(1,2) t' unfolding t d by linarith+
  have inner: "\<exists>w. getInnerWeight n d (ucast t) qs = Inr w \<and>
      (w \<noteq> 0 \<longleftrightarrow> n \<in> set (concat (map qset_nodes qs)))"
  proof (rule getInnerWeight_ok[OF range])
    fix q assume q: "q \<in> set qs"
    show "\<exists>w. getNodeWeight n q = Inr w \<and> (w \<noteq> 0 \<longleftrightarrow> n \<in> set (qset_nodes q))"
      by (rule SCPQuorumSet.IH[OF q b(4)[OF q]])
  qed
  have eq: "getNodeWeight n (SCPQuorumSet t vs qs) =
      (if n \<in> set vs then computeWeight UINT64_MAX d (ucast t) else getInnerWeight n d (ucast t) qs)"
    by (simp only: getNodeWeight.simps Let_def d_def)
  show ?case
  proof (cases "n \<in> set vs")
    case True
    then show ?thesis
      unfolding eq using computeWeight_ok[OF range, of UINT64_MAX] by auto
  next
    case False
    then show ?thesis unfolding eq using inner by simp
  qed
qed

section \<open>The closest blocking set\<close>

text \<open>The counters of the loops, read as natural numbers.\<close>

lemma of_nat_u64_0: "l < 2 ^ 64 \<Longrightarrow> (of_nat l :: uint64) = 0 \<longleftrightarrow> l = 0"
proof -
  assume "l < 2 ^ 64"
  then have "unat (of_nat l :: uint64) = l" by (intro unat_of_nat_less) simp
  then show ?thesis by (subst unat_eq_0[symmetric]) simp
qed

lemma closestValidators_nat:
  "0 < l \<Longrightarrow> l < 2 ^ 64 \<Longrightarrow>
   closestValidators None nodes (of_nat l) res vs =
     (if l \<le> length (filter (\<lambda>v. v \<notin> set nodes) vs) then None
      else Some (of_nat (l - length (filter (\<lambda>v. v \<notin> set nodes) vs)),
                 res @ filter (\<lambda>v. v \<in> set nodes) vs))"
proof (induction vs arbitrary: l res)
  case (Cons v vs)
  show ?case
  proof (cases "v \<in> set nodes")
    case True
    then show ?thesis using Cons by simp
  next
    case False
    obtain k where l: "l = Suc k" using Cons.prems(1) by (cases l) auto
    then have "(of_nat k :: uint64) = 0 \<longleftrightarrow> k = 0"
      using Cons.prems by (intro of_nat_u64_0) simp
    then show ?thesis
      using False Cons.prems Cons.IH[of k res] by (simp add: Let_def l)
  qed
qed simp

lemma closestInner_nat:
  "0 < l \<Longrightarrow> l < 2 ^ 64 \<Longrightarrow>
   closestInner f (of_nat l) rs qs =
     (if l \<le> length (filter (\<lambda>q. f q = []) qs) then None
      else Some (of_nat (l - length (filter (\<lambda>q. f q = []) qs)),
                 fold emplaceBySize (map f (filter (\<lambda>q. f q \<noteq> []) qs)) rs))"
proof (induction qs arbitrary: l rs)
  case (Cons q qs)
  show ?case
  proof (cases "f q = []")
    case False
    then show ?thesis using Cons by (simp add: Let_def)
  next
    case True
    obtain k where l: "l = Suc k" using Cons.prems(1) by (cases l) auto
    then have "(of_nat k :: uint64) = 0 \<longleftrightarrow> k = 0"
      using Cons.prems by (intro of_nat_u64_0) simp
    then show ?thesis
      using True Cons.prems Cons.IH[of k rs] by (simp add: Let_def l)
  qed
qed simp

lemma useSubsets_nat: "l < 2 ^ 64 \<Longrightarrow> useSubsets (of_nat l) res vs = res @ concat (take l vs)"
proof (induction vs arbitrary: l res)
  case (Cons v vs)
  then show ?case
    using of_nat_u64_0[of l] Cons.IH[of "l - 1"] by (cases l) simp_all
qed simp

lemma mset_emplaceBySize [simp]: "mset (emplaceBySize v ws) = add_mset v (mset ws)"
  by (induction v ws rule: emplaceBySize.induct) auto

lemma sorted_emplaceBySize:
  "sorted (map length ws) \<Longrightarrow> sorted (map length (emplaceBySize v ws))"
proof (induction v ws rule: emplaceBySize.induct)
  case (2 v w ws)
  have "set (emplaceBySize v ws) = insert v (set ws)"
    by (metis mset_emplaceBySize set_mset_add_mset_insert set_mset_mset)
  with 2 show ?case by auto
qed simp

lemma fold_emplaceBySize:
  "mset (fold emplaceBySize vs ws) = mset vs + mset ws"
  "sorted (map length ws) \<Longrightarrow> sorted (map length (fold emplaceBySize vs ws))"
  by (induction vs arbitrary: ws) (auto simp: sorted_emplaceBySize)

text \<open>
  The result in closed form: with \<open>l\<close> entries still to block, the first live validators, and then
  the smallest results of the inner sets.
\<close>

definition live_inner :: "(SCPQuorumSet \<Rightarrow> node_id list) \<Rightarrow> SCPQuorumSet list \<Rightarrow> node_id list list" where
  "live_inner f qs = fold emplaceBySize (map f (filter (\<lambda>q. f q \<noteq> []) qs)) []"

lemma mset_live_inner: "mset (live_inner f qs) = mset (map f (filter (\<lambda>q. f q \<noteq> []) qs))"
  and sorted_live_inner: "sorted (map length (live_inner f qs))"
  by (simp_all add: live_inner_def fold_emplaceBySize)

lemma findClosest_eq:
  fixes nodes :: "node_id list"
  assumes q: "small_ok (SCPQuorumSet t vs qs)"
  defines "f \<equiv> findClosestVBlocking nodes None"
  defines "avail \<equiv> filter (\<lambda>v. v \<in> set nodes) vs"
    and "missing \<equiv> length (filter (\<lambda>v. v \<notin> set nodes) vs) + length (filter (\<lambda>q. f q = []) qs)"
    and "L \<equiv> 1 + (length vs + length qs) - unat t"
  shows "f (SCPQuorumSet t vs qs) =
    (if L \<le> missing then []
     else take (L - missing) avail @ concat (take (L - missing - length avail) (live_inner f qs)))"
proof -
  note b = small_ok_simps[OF q]
  define mv mi where "mv = length (filter (\<lambda>v. v \<notin> set nodes) vs)"
    and "mi = length (filter (\<lambda>q. f q = []) qs)"
  have missing: "missing = mv + mi" by (simp add: missing_def mv_def mi_def)
  have L: "(of_nat (1 + length vs + length qs) - ucast t :: uint64) = of_nat L"
    using left_till_block(1)[OF b(2,3)] by (simp add: L_def)
  have Lb: "0 < L" "L < 2 ^ 64" using b(2,3) by (auto simp: L_def)
  have v: "closestValidators None nodes (of_nat L) [] vs =
      (if L \<le> mv then None else Some (of_nat (L - mv), avail))"
    by (subst closestValidators_nat[OF Lb]) (simp add: mv_def avail_def)
  have i: "closestInner f (of_nat (L - mv)) [] qs =
      (if L \<le> missing then None else Some (of_nat (L - missing), live_inner f qs))" if "\<not> L \<le> mv"
    using that Lb by (subst closestInner_nat) (auto simp: mi_def missing live_inner_def)
  show ?thesis
  proof (cases "L \<le> missing")
    case True
    then show ?thesis
      by (cases "L \<le> mv") (simp_all only: f_def findClosestVBlocking.simps Let_def L v if_True
          option.case i[unfolded f_def] if_False prod.case not_False_eq_True)
  next
    case False
    then have nv: "\<not> L \<le> mv" by (simp add: missing)
    define l where "l = L - missing"
    have lb: "l < 2 ^ 64" using Lb by (simp add: l_def)
    have len: "length avail < 2 ^ 64" using b(3) length_filter_le[of _ vs]
      by (simp add: avail_def le_less_trans[OF length_filter_le])
    have gt: "of_nat (length avail) > (of_nat l :: uint64) \<longleftrightarrow> l < length avail"
      using lb len by (simp add: word_less_nat_alt unat_of_nat_less)
    have res: "(if of_nat (length avail) > (of_nat l :: uint64) then take (unat (of_nat l :: uint64)) avail
        else avail) = take l avail"
      using gt lb by (simp add: unat_of_nat_less)
    have left: "(of_nat l - of_nat (length (take l avail)) :: uint64) = of_nat (l - length avail)"
      by (simp add: min_def of_nat_diff)
    have "f (SCPQuorumSet t vs qs) = useSubsets (of_nat (l - length avail)) (take l avail) (live_inner f qs)"
      using False
      by (simp only: f_def findClosestVBlocking.simps Let_def L v nv if_False option.case prod.case
          i[unfolded f_def, OF nv] l_def[symmetric] res left)
    also have "\<dots> = take l avail @ concat (take (l - length avail) (live_inner f qs))"
      by (rule useSubsets_nat) (use lb in simp)
    finally show ?thesis using False by (simp add: l_def)
  qed
qed

declare findClosestVBlocking.simps [simp del]

lemma live_inner_elem:
  assumes "v \<in> set (live_inner f qs)"
  obtains q where "q \<in> set qs" "v = f q" "f q \<noteq> []"
proof -
  have "v \<in># mset (map f (filter (\<lambda>q. f q \<noteq> []) qs))"
    using assms unfolding mset_live_inner[symmetric] by simp
  then show ?thesis using that by auto
qed

lemma findClosest_form:
  assumes "small_ok (SCPQuorumSet t vs qs)"
  obtains k m where "findClosestVBlocking nodes None (SCPQuorumSet t vs qs) =
    take k (filter (\<lambda>v. v \<in> set nodes) vs) @
    concat (take m (live_inner (findClosestVBlocking nodes None) qs))"
proof (cases "1 + (length vs + length qs) - unat t \<le> length (filter (\<lambda>v. v \<notin> set nodes) vs) +
    length (filter (\<lambda>q. findClosestVBlocking nodes None q = []) qs)")
  case True
  then show ?thesis using that[of 0 0] findClosest_eq[OF assms, of nodes] by simp
next
  case False
  show ?thesis by (rule that, subst findClosest_eq[OF assms]) (simp only: False if_False)
qed

lemma findClosest_subset:
  "small_ok q \<Longrightarrow> set (findClosestVBlocking nodes None q) \<subseteq> set nodes \<inter> set (qset_nodes q)"
proof (induction q)
  case (SCPQuorumSet t vs qs)
  define f where "f = findClosestVBlocking nodes None"
  have inner: "set v \<subseteq> set nodes \<inter> set (concat (map qset_nodes qs))" if v: "v \<in> set (live_inner f qs)" for v
  proof -
    obtain q where q: "q \<in> set qs" "v = f q" by (rule live_inner_elem[OF v])
    have "set (f q) \<subseteq> set nodes \<inter> set (qset_nodes q)"
      unfolding f_def by (rule SCPQuorumSet.IH[OF q(1) small_ok_simps(4)[OF SCPQuorumSet.prems q(1)]])
    with q show ?thesis by auto
  qed
  have "set (concat (take k (live_inner f qs))) \<subseteq> set nodes \<inter> set (concat (map qset_nodes qs))" for k
    by (subst set_concat) (intro UN_least inner, erule in_set_takeD)
  moreover have "set (take k (filter (\<lambda>v. v \<in> set nodes) vs)) \<subseteq> set nodes \<inter> set vs" for k
    using set_take_subset[of k "filter (\<lambda>v. v \<in> set nodes) vs"] by auto
  ultimately have sub: "set (take k (filter (\<lambda>v. v \<in> set nodes) vs) @ concat (take m (live_inner f qs)))
      \<subseteq> set nodes \<inter> set (qset_nodes (SCPQuorumSet t vs qs))" for k m
    unfolding set_append qset_nodes.simps by blast
  obtain k m where "f (SCPQuorumSet t vs qs) =
      take k (filter (\<lambda>v. v \<in> set nodes) vs) @ concat (take m (live_inner f qs))"
    unfolding f_def by (rule findClosest_form[OF SCPQuorumSet.prems])
  with sub[of k m] show ?case unfolding f_def[symmetric] by (simp only:)
qed

text \<open>The entries a set of nodes fails to satisfy, counted.\<close>

lemma not_sat_count:
  assumes "small_ok (SCPQuorumSet t vs qs)"
  shows "\<not> sat S (SCPQuorumSet t vs qs) \<longleftrightarrow>
    1 + (length vs + length qs) - unat t
      \<le> length (filter (\<lambda>v. v \<notin> S) vs) + length (filter (\<lambda>q. \<not> sat S q) qs)"
proof -
  have "need t = unat t" using small_ok_simps(1)[OF assms] by (auto simp: need_def)
  moreover have "length (filter (\<lambda>v. v \<in> S) vs) + length (filter (\<lambda>v. v \<notin> S) vs) = length vs"
    "length (filter (sat S) qs) + length (filter (\<lambda>q. \<not> sat S q) qs) = length qs"
    by (rule sum_length_filter_compl)+
  ultimately show ?thesis using small_ok_simps(2)[OF assms] by auto
qed

lemma length_live_inner: "length (live_inner f qs) + length (filter (\<lambda>q. f q = []) qs) = length qs"
proof -
  have "length (live_inner f qs) = length (filter (\<lambda>q. f q \<noteq> []) qs)"
    using mset_eq_length[OF mset_live_inner[of f qs]] by simp
  then show ?thesis using sum_length_filter_compl[of "\<lambda>q. f q = []" qs] by simp
qed

lemma findClosest_empty_iff:
  "small_ok q \<Longrightarrow> findClosestVBlocking nodes None q = [] \<longleftrightarrow> \<not> sat (set nodes) q"
proof (induction q)
  case (SCPQuorumSet t vs qs)
  note b = small_ok_simps[OF SCPQuorumSet.prems]
  define f where "f = findClosestVBlocking nodes None"
  define avail where "avail = filter (\<lambda>v. v \<in> set nodes) vs"
  define missing where "missing = length (filter (\<lambda>v. v \<notin> set nodes) vs) + length (filter (\<lambda>q. f q = []) qs)"
  define L where "L = 1 + (length vs + length qs) - unat t"
  note eq = findClosest_eq[OF SCPQuorumSet.prems, of nodes, folded f_def avail_def, folded missing_def L_def]
  have "filter (\<lambda>q. \<not> sat (set nodes) q) qs = filter (\<lambda>q. f q = []) qs"
    using SCPQuorumSet.IH b(4) by (intro filter_cong) (auto simp: f_def)
  then have sat: "\<not> sat (set nodes) (SCPQuorumSet t vs qs) \<longleftrightarrow> L \<le> missing"
    using not_sat_count[OF SCPQuorumSet.prems] by (simp add: L_def missing_def)
  have "f (SCPQuorumSet t vs qs) \<noteq> []" if nb: "\<not> L \<le> missing"
  proof (cases avail)
    case Nil
    have "missing + length avail + length (live_inner f qs) = length vs + length qs"
      using length_live_inner[of f qs] sum_length_filter_compl[of "\<lambda>v. v \<in> set nodes" vs]
      by (simp add: missing_def avail_def)
    then have "live_inner f qs \<noteq> []" using nb b(1) Nil by (auto simp: L_def)
    then obtain v ws where live: "live_inner f qs = v # ws" by (cases "live_inner f qs") auto
    have "v \<noteq> []" by (rule live_inner_elem[of v f qs]) (simp_all add: live)
    moreover obtain k where "L - missing = Suc k" using nb by (cases "L - missing") auto
    ultimately show ?thesis using nb Nil by (simp add: eq live)
  next
    case (Cons v ws)
    moreover obtain k where "L - missing = Suc k" using nb by (cases "L - missing") auto
    ultimately show ?thesis using nb by (simp add: eq)
  qed
  then have "f (SCPQuorumSet t vs qs) = [] \<longleftrightarrow> L \<le> missing" by (cases "L \<le> missing") (simp_all add: eq)
  with sat show ?case unfolding f_def by (simp only:)
qed

text \<open>Losing the result blocks the quorum set.\<close>

lemma length_filter_take:
  assumes "\<And>x. x \<in> set (take k xs) \<Longrightarrow> P x"
  shows "min k (length xs) \<le> length (filter P xs)"
proof -
  have "length (filter P xs) = length (filter P (take k xs)) + length (filter P (drop k xs))"
    by (metis append_take_drop_id filter_append length_append)
  moreover have "filter P (take k xs) = take k xs" using assms by (simp add: filter_id_conv)
  ultimately show ?thesis by simp
qed

lemma length_filter_disj:
  "(\<And>x. P x \<Longrightarrow> \<not> Q x) \<Longrightarrow>
     length (filter P xs) + length (filter Q xs) = length (filter (\<lambda>x. P x \<or> Q x) xs)"
  by (induction xs) auto

lemma length_filter_mono: "(\<And>x. x \<in> set xs \<Longrightarrow> P x \<Longrightarrow> Q x) \<Longrightarrow> length (filter P xs) \<le> length (filter Q xs)"
  by (induction xs) (auto simp: le_SucI)

lemma length_filter_live_inner:
  "length (filter P (live_inner f qs)) = length (filter (\<lambda>q. f q \<noteq> [] \<and> P (f q)) qs)"
proof -
  have "length (filter P (live_inner f qs)) = size (filter_mset P (mset (live_inner f qs)))"
    by (metis mset_filter size_mset)
  also have "\<dots> = length (filter P (map f (filter (\<lambda>q. f q \<noteq> []) qs)))"
    unfolding mset_live_inner by (metis mset_filter size_mset)
  also have "\<dots> = length (filter (\<lambda>q. f q \<noteq> [] \<and> P (f q)) qs)"
    by (induction qs) auto
  finally show ?thesis .
qed

lemma blocked_validators:
  assumes "set (take l (filter (\<lambda>v. v \<in> N) vs)) \<subseteq> R"
  shows "length (filter (\<lambda>v. v \<notin> N) vs) + min l (length (filter (\<lambda>v. v \<in> N) vs))
    \<le> length (filter (\<lambda>v. v \<notin> N - R) vs)"
proof -
  have "min l (length (filter (\<lambda>v. v \<in> N) vs)) \<le> length (filter (\<lambda>v. v \<in> R) (filter (\<lambda>v. v \<in> N) vs))"
    by (rule length_filter_take) (use assms in blast)
  also have "\<dots> = length (filter (\<lambda>v. v \<in> N \<and> v \<in> R) vs)"
    by (simp add: conj_commute)
  finally have "length (filter (\<lambda>v. v \<notin> N) vs) + min l (length (filter (\<lambda>v. v \<in> N) vs))
      \<le> length (filter (\<lambda>v. v \<notin> N \<or> v \<in> N \<and> v \<in> R) vs)"
    using length_filter_disj[of "\<lambda>v. v \<notin> N" "\<lambda>v. v \<in> N \<and> v \<in> R" vs] by linarith
  also have "\<dots> \<le> length (filter (\<lambda>v. v \<notin> N - R) vs)"
    by (rule length_filter_mono) blast
  finally show ?thesis .
qed

lemma blocked_inner:
  assumes "\<And>v. v \<in> set (take k (live_inner f qs)) \<Longrightarrow> set v \<subseteq> R"
    and "\<And>q. q \<in> set qs \<Longrightarrow> \<not> sat (N - set (f q)) q"
  shows "length (filter (\<lambda>q. f q = []) qs) + min k (length (live_inner f qs))
    \<le> length (filter (\<lambda>q. \<not> sat (N - R) q) qs)"
proof -
  have "min k (length (live_inner f qs)) \<le> length (filter (\<lambda>v. set v \<subseteq> R) (live_inner f qs))"
    by (rule length_filter_take) (rule assms(1))
  also have "\<dots> = length (filter (\<lambda>q. f q \<noteq> [] \<and> set (f q) \<subseteq> R) qs)"
    by (rule length_filter_live_inner)
  finally have "length (filter (\<lambda>q. f q = []) qs) + min k (length (live_inner f qs))
      \<le> length (filter (\<lambda>q. f q = [] \<or> f q \<noteq> [] \<and> set (f q) \<subseteq> R) qs)"
    using length_filter_disj[of "\<lambda>q. f q = []" "\<lambda>q. f q \<noteq> [] \<and> set (f q) \<subseteq> R" qs] by linarith
  also have "\<dots> \<le> length (filter (\<lambda>q. \<not> sat (N - R) q) qs)"
  proof (rule length_filter_mono)
    fix q assume q: "q \<in> set qs" "f q = [] \<or> f q \<noteq> [] \<and> set (f q) \<subseteq> R"
    then have "set (f q) \<subseteq> R" by auto
    then have "N - R \<subseteq> N - set (f q)" by blast
    with assms(2)[OF q(1)] show "\<not> sat (N - R) q" using sat_mono by blast
  qed
  finally show ?thesis .
qed

lemma findClosest_blocks:
  "small_ok q \<Longrightarrow> \<not> sat (set nodes - set (findClosestVBlocking nodes None q)) q"
proof (induction q)
  case (SCPQuorumSet t vs qs)
  note b = small_ok_simps[OF SCPQuorumSet.prems]
  define f where "f = findClosestVBlocking nodes None"
  define avail where "avail = filter (\<lambda>v. v \<in> set nodes) vs"
  define missing where "missing = length (filter (\<lambda>v. v \<notin> set nodes) vs) + length (filter (\<lambda>q. f q = []) qs)"
  define L where "L = 1 + (length vs + length qs) - unat t"
  define R where "R = set (f (SCPQuorumSet t vs qs))"
  note eq = findClosest_eq[OF SCPQuorumSet.prems, of nodes, folded f_def avail_def, folded missing_def L_def]
  show ?case
  proof (cases "L \<le> missing")
    case True
    then have "findClosestVBlocking nodes None (SCPQuorumSet t vs qs) = []"
      using eq unfolding f_def by (simp only: if_True)
    then show ?thesis
      using findClosest_empty_iff[OF SCPQuorumSet.prems, of nodes] by (simp only: list.set Diff_empty simp_thms)
  next
    case False
    define l where "l = L - missing"
    have R: "R = set (take l avail) \<union> \<Union> (set ` set (take (l - length avail) (live_inner f qs)))"
      using False by (simp add: R_def eq l_def)
    have v: "length (filter (\<lambda>v. v \<notin> set nodes) vs) + min l (length avail)
        \<le> length (filter (\<lambda>v. v \<notin> set nodes - R) vs)"
      unfolding avail_def by (rule blocked_validators) (use R in \<open>simp add: avail_def\<close>)
    have i: "length (filter (\<lambda>q. f q = []) qs) + min (l - length avail) (length (live_inner f qs))
        \<le> length (filter (\<lambda>q. \<not> sat (set nodes - R) q) qs)"
    proof (rule blocked_inner)
      show "set v \<subseteq> R" if "v \<in> set (take (l - length avail) (live_inner f qs))" for v
        using that unfolding R by blast
      show "\<not> sat (set nodes - set (f q)) q" if "q \<in> set qs" for q
        unfolding f_def by (rule SCPQuorumSet.IH[OF that b(4)[OF that]])
    qed
    have "missing + length avail + length (live_inner f qs) = length vs + length qs"
      using length_live_inner[of f qs] sum_length_filter_compl[of "\<lambda>v. v \<in> set nodes" vs]
      by (simp add: missing_def avail_def)
    then have "l \<le> min l (length avail) + min (l - length avail) (length (live_inner f qs))"
      using b(1) by (auto simp: l_def L_def min_def)
    then have "\<not> sat (set nodes - R) (SCPQuorumSet t vs qs)"
      using v i False unfolding not_sat_count[OF SCPQuorumSet.prems] L_def[symmetric]
      by (simp add: l_def missing_def)
    then show ?thesis unfolding R_def f_def .
  qed
qed

text \<open>No smaller set of live nodes blocks it: the cheapest entries are chosen.\<close>

lemma sum_smallest:
  "sorted xs \<Longrightarrow> mset ys \<subseteq># mset (xs :: nat list) \<Longrightarrow> sum_list (take (length ys) xs) \<le> sum_list ys"
proof (induction xs arbitrary: ys)
  case (Cons x xs)
  show ?case
  proof (cases ys)
    case ys: (Cons y ys')
    define z where "z = (if x \<in> set ys then x else y)"
    have z: "z \<in> set ys" by (simp add: z_def ys)
    have "z \<in> set (x # xs)" using Cons.prems(2) z by (metis mset_subset_eqD set_mset_mset)
    then have le: "x \<le> z" using Cons.prems(1) by auto
    have "mset (remove1 z ys) \<subseteq># mset xs"
    proof (cases "x \<in> set ys")
      case True
      then show ?thesis using Cons.prems(2) by (simp add: z_def subset_eq_diff_conv)
    next
      case False
      have "mset ys - {#x#} \<subseteq># mset xs"
        using Cons.prems(2) by (simp add: subset_eq_diff_conv)
      then have "mset ys \<subseteq># mset xs" using False by (simp add: diff_single_trivial)
      moreover have "mset (remove1 z ys) \<subseteq># mset ys" by simp
      ultimately show ?thesis by (rule subset_mset.order_trans[rotated])
    qed
    then have "sum_list (take (length (remove1 z ys)) xs) \<le> sum_list (remove1 z ys)"
      using Cons.IH Cons.prems(1) by simp
    moreover have "sum_list ys = z + sum_list (remove1 z ys)"
      using z by (simp add: sum_list_map_remove1[of z ys "\<lambda>x. x", simplified])
    moreover have "length ys = Suc (length (remove1 z ys))"
      using z length_pos_if_in_set[OF z] by (simp add: length_remove1)
    ultimately show ?thesis using le by simp
  qed simp
qed simp

lemma sum_take_grow:
  assumes "\<And>x. x \<in> set xs \<Longrightarrow> (1::nat) \<le> x" "k \<le> b" "b \<le> length xs"
  shows "sum_list (take k xs) + (b - k) \<le> sum_list (take b xs)"
proof -
  have "take b xs = take k xs @ take (b - k) (drop k xs)"
    using assms(2) by (metis le_add_diff_inverse take_add)
  moreover have "length ys \<le> sum_list ys" if "\<And>x. x \<in> set ys \<Longrightarrow> 1 \<le> x" for ys :: "nat list"
    using that by (induction ys) force+
  moreover have "length (take (b - k) (drop k xs)) = b - k" using assms(2,3) by simp
  moreover have "x \<in> set (take (b - k) (drop k xs)) \<Longrightarrow> 1 \<le> x" for x
    using assms(1) by (meson in_set_dropD in_set_takeD)
  ultimately show ?thesis by (metis add_left_mono sum_list_append)
qed

lemma sum_list_filter_le: "sum_list (map g (filter P xs)) \<le> sum_list (map (g :: 'a \<Rightarrow> nat) xs)"
  by (induction xs) auto

lemma length_filter_concat:
  "length (filter P (concat (map g xs))) = sum_list (map (\<lambda>x. length (filter P (g x))) xs)"
  by (induction xs) auto

lemma map_filter_live_inner:
  "mset (map f (filter (\<lambda>q. f q \<noteq> [] \<and> P q) qs)) \<subseteq># mset (live_inner f qs)"
proof -
  have eq: "filter (\<lambda>q. f q \<noteq> [] \<and> P q) qs = filter P (filter (\<lambda>q. f q \<noteq> []) qs)"
    by (simp add: conj_commute)
  show ?thesis
    unfolding mset_live_inner mset_map eq mset_filter[of P]
    by (rule image_mset_subseteq_mono, rule multiset_filter_subset)
qed

lemma findClosest_optimal_step:
  assumes "a \<le> av" "l \<le> a + b" "k = l - av" "b \<le> length xs" "\<And>x. x \<in> set xs \<Longrightarrow> (1::nat) \<le> x"
  shows "min l av + sum_list (take k xs) \<le> a + sum_list (take b xs)"
proof -
  have kb: "k \<le> b" using assms(1-3) by simp
  have "sum_list (take k xs) + (b - k) \<le> sum_list (take b xs)"
    by (rule sum_take_grow[OF assms(5) kb assms(4)])
  then show ?thesis using assms(1-3) by (cases "l \<le> av") auto
qed

lemma unsat_validators:
  "length (filter (\<lambda>v. v \<notin> N - B) vs) =
     length (filter (\<lambda>v. v \<notin> N) vs) + length (filter (\<lambda>n. n \<in> B \<and> n \<in> N) vs)"
  by (induction vs) auto

lemma unsat_inner:
  "(\<And>q. q \<in> set qs \<Longrightarrow> f q = [] \<Longrightarrow> \<not> sat S q) \<Longrightarrow>
   length (filter (\<lambda>q. \<not> sat S q) qs) =
     length (filter (\<lambda>q. f q = []) qs) + length (filter (\<lambda>q. f q \<noteq> [] \<and> \<not> sat S q) qs)"
  by (induction qs) auto

lemma cheapest_inner:
  assumes "\<And>q. q \<in> set qs \<Longrightarrow> \<not> sat S q \<Longrightarrow> length (f q) \<le> g q"
  shows "sum_list (take (length (filter (\<lambda>q. f q \<noteq> [] \<and> \<not> sat S q) qs)) (map length (live_inner f qs)))
    \<le> sum_list (map g qs)"
proof -
  define U where "U = filter (\<lambda>q. f q \<noteq> [] \<and> \<not> sat S q) qs"
  have "mset (map length (map f U)) \<subseteq># mset (map length (live_inner f qs))"
    unfolding U_def mset_map[of length] by (rule image_mset_subseteq_mono[OF map_filter_live_inner])
  then have "sum_list (take (length U) (map length (live_inner f qs))) \<le> sum_list (map length (map f U))"
    using sum_smallest[OF sorted_live_inner, of "map length (map f U)"] by simp
  also have "\<dots> \<le> sum_list (map g U)"
    unfolding map_map comp_def using assms by (intro sum_list_mono) (simp add: U_def)
  also have "\<dots> \<le> sum_list (map g qs)"
    unfolding U_def by (rule sum_list_filter_le)
  finally show ?thesis by (simp only: U_def)
qed

lemma findClosest_optimal:
  "small_ok q \<Longrightarrow> \<not> sat (set nodes - B) q \<Longrightarrow>
     length (findClosestVBlocking nodes None q) \<le> length (filter (\<lambda>n. n \<in> B \<and> n \<in> set nodes) (qset_nodes q))"
proof (induction q)
  case (SCPQuorumSet t vs qs)
  note b = small_ok_simps[OF SCPQuorumSet.prems(1)]
  define f where "f = findClosestVBlocking nodes None"
  define avail where "avail = filter (\<lambda>v. v \<in> set nodes) vs"
  define missing where "missing = length (filter (\<lambda>v. v \<notin> set nodes) vs) + length (filter (\<lambda>q. f q = []) qs)"
  define L where "L = 1 + (length vs + length qs) - unat t"
  define bl where "bl = (\<lambda>n. n \<in> B \<and> n \<in> set nodes)"
  define S where "S = set nodes - B"
  define U where "U = filter (\<lambda>q. f q \<noteq> [] \<and> \<not> sat S q) qs"
  define lens where "lens = map length (live_inner f qs)"
  note eq = findClosest_eq[OF SCPQuorumSet.prems(1), of nodes, folded f_def avail_def, folded missing_def L_def]
  have IH: "length (f q) \<le> length (filter bl (qset_nodes q))" if "q \<in> set qs" "\<not> sat S q" for q
    unfolding f_def bl_def by (rule SCPQuorumSet.IH[OF that(1) b(4)[OF that(1)] that(2)[unfolded S_def]])
  have dead: "\<not> sat S q" if "q \<in> set qs" "f q = []" for q
    using findClosest_empty_iff[OF b(4)[OF that(1)], of nodes] that(2) sat_mono[of S q "set nodes"]
    unfolding f_def S_def by blast
  have U_len: "length U \<le> length lens"
    using size_mset_mono[OF map_filter_live_inner[of f "\<lambda>q. \<not> sat S q" qs]]
    by (simp only: size_mset length_map U_def lens_def)
  have av: "length (filter bl vs) \<le> length avail"
    unfolding avail_def bl_def by (rule length_filter_mono) simp
  have pos: "1 \<le> x" if x: "x \<in> set lens" for x
  proof -
    obtain v where v: "v \<in> set (live_inner f qs)" "x = length v" using x by (auto simp: lens_def)
    have "v \<noteq> []" by (rule live_inner_elem[OF v(1)]) simp
    then show ?thesis by (simp add: v(2) Suc_le_eq)
  qed
  show ?case
  proof (cases "L \<le> missing")
    case True
    then show ?thesis using eq unfolding f_def by (simp only: if_True list.size)
  next
    case False
    have l: "L - missing \<le> length (filter bl vs) + length U"
      using SCPQuorumSet.prems(2) unsat_inner[of qs f S, OF dead] unsat_validators[of "set nodes" B vs]
      unfolding not_sat_count[OF SCPQuorumSet.prems(1)] L_def[symmetric] S_def[symmetric] bl_def U_def missing_def
      by linarith
    have "length (f (SCPQuorumSet t vs qs)) =
        min (L - missing) (length avail) + sum_list (take (L - missing - length avail) lens)"
      using False by (simp add: eq lens_def length_concat take_map)
    also have "\<dots> \<le> length (filter bl vs) + sum_list (take (length U) lens)"
      by (rule findClosest_optimal_step[OF av l refl U_len pos])
    also have "\<dots> \<le> length (filter bl (qset_nodes (SCPQuorumSet t vs qs)))"
      using cheapest_inner[of qs S f, OF IH] by (simp add: U_def lens_def length_filter_concat)
    finally show ?thesis by (simp only: f_def bl_def)
  qed
qed

section \<open>Properties\<close>

text \<open>
  Property C11. For a sane quorum set, \<^verbatim>\<open>findClosestVBlocking\<close> (with no excluded node) returns live
  nodes whose loss leaves no slice among the live nodes, it returns no node exactly when there is no
  slice already, and no other list of nodes with that effect is shorter.
\<close>

theorem findClosestVBlocking_smallest:
  assumes "isQuorumSetSane q extra"
  shows "set (findClosestVBlocking nodes None q) \<subseteq> set nodes \<and>
    \<not> isQuorumSlice q (filter (\<lambda>n. n \<notin> set (findClosestVBlocking nodes None q)) nodes) \<and>
    (findClosestVBlocking nodes None q = [] \<longleftrightarrow> \<not> isQuorumSlice q nodes) \<and>
    (\<forall>bs. \<not> isQuorumSlice q (filter (\<lambda>n. n \<notin> set bs) nodes) \<longrightarrow>
       length (findClosestVBlocking nodes None q) \<le> length bs)"
proof (intro conjI allI impI)
  note ok = sane_small_ok[OF assms]
  have diff: "set (filter (\<lambda>n. n \<notin> B) nodes) = set nodes - B" for B by auto
  show "set (findClosestVBlocking nodes None q) \<subseteq> set nodes"
    using findClosest_subset[OF ok, of nodes] by (simp only: le_inf_iff)
  show "\<not> isQuorumSlice q (filter (\<lambda>n. n \<notin> set (findClosestVBlocking nodes None q)) nodes)"
    unfolding isQuorumSlice_def isQuorumSliceInternal_sat diff by (rule findClosest_blocks[OF ok])
  show "findClosestVBlocking nodes None q = [] \<longleftrightarrow> \<not> isQuorumSlice q nodes"
    unfolding isQuorumSlice_def isQuorumSliceInternal_sat by (rule findClosest_empty_iff[OF ok])
  fix bs assume "\<not> isQuorumSlice q (filter (\<lambda>n. n \<notin> set bs) nodes)"
  then have "length (findClosestVBlocking nodes None q)
      \<le> length (filter (\<lambda>n. n \<in> set bs \<and> n \<in> set nodes) (qset_nodes q))"
    unfolding isQuorumSlice_def isQuorumSliceInternal_sat diff by (rule findClosest_optimal[OF ok])
  also have "\<dots> = card (set (filter (\<lambda>n. n \<in> set bs \<and> n \<in> set nodes) (qset_nodes q)))"
    using assms by (intro distinct_card[symmetric] distinct_filter) (simp add: isQuorumSetSane_iff)
  also have "\<dots> \<le> card (set bs)" by (rule card_mono) auto
  also have "\<dots> \<le> length bs" by (rule card_length)
  finally show "length (findClosestVBlocking nodes None q) \<le> length bs" .
qed

theorem findClosestVBlocking_smallest_witness:
  "isQuorumSetSane (SCPQuorumSet 2 [1, 2] [SCPQuorumSet 1 [3, 4] []]) False \<and>
   findClosestVBlocking [1, 3, 4] None (SCPQuorumSet 2 [1, 2] [SCPQuorumSet 1 [3, 4] []]) = [1] \<and>
   \<not> isQuorumSlice (SCPQuorumSet 2 [1, 2] [SCPQuorumSet 1 [3, 4] []]) (filter (\<lambda>n. n \<notin> set [3, 4]) [1, 3, 4]) \<and>
   length (findClosestVBlocking [1, 3, 4] None (SCPQuorumSet 2 [1, 2] [SCPQuorumSet 1 [3, 4] []])) \<le> length [3 :: node_id, 4]"
proof -
  have s: "isQuorumSetSane (SCPQuorumSet 2 [1, 2] [SCPQuorumSet 1 [3, 4] []]) False" by code_simp
  have f: "findClosestVBlocking [1, 3, 4] None (SCPQuorumSet 2 [1, 2] [SCPQuorumSet 1 [3, 4] []]) = [1]"
    by code_simp
  have n: "\<not> isQuorumSlice (SCPQuorumSet 2 [1, 2] [SCPQuorumSet 1 [3, 4] []]) (filter (\<lambda>n. n \<notin> set [3, 4]) [1, 3, 4])"
    by code_simp
  show ?thesis using s f n findClosestVBlocking_smallest[OF s, of "[1, 3, 4]"] by blast
qed

text \<open>
  Property C14. For a sane quorum set \<^verbatim>\<open>getNodeWeight\<close> never fails its assertion, and the weight is
  positive exactly for the nodes the quorum set names, at any depth.
\<close>

theorem getNodeWeight_positive:
  assumes "isQuorumSetSane q extra"
  shows "\<exists>w. getNodeWeight n q = Inr w \<and> (0 < w \<longleftrightarrow> n \<in> set (qset_nodes q))"
  using getNodeWeight_ok[OF sane_small_ok[OF assms], of n] by (simp add: word_gt_0)

theorem getNodeWeight_positive_witness:
  "isQuorumSetSane (SCPQuorumSet 2 [1, 2] [SCPQuorumSet 1 [3, 4] []]) False \<and>
   getNodeWeight 3 (SCPQuorumSet 2 [1, 2] [SCPQuorumSet 1 [3, 4] []]) = Inr 6148914691236517206 \<and>
   (\<exists>w. getNodeWeight 3 (SCPQuorumSet 2 [1, 2] [SCPQuorumSet 1 [3, 4] []]) = Inr w \<and>
     (0 < w \<longleftrightarrow> 3 \<in> set (qset_nodes (SCPQuorumSet 2 [1, 2] [SCPQuorumSet 1 [3, 4] []]))))"
proof -
  have s: "isQuorumSetSane (SCPQuorumSet 2 [1, 2] [SCPQuorumSet 1 [3, 4] []]) False" by code_simp
  have w: "getNodeWeight 3 (SCPQuorumSet 2 [1, 2] [SCPQuorumSet 1 [3, 4] []]) = Inr 6148914691236517206"
    by code_simp
  show ?thesis using s w getNodeWeight_positive[OF s, of 3] by blast
qed

end
