(* ===== verification/NominationProtocol.thy ===== *)
theory NominationProtocol
  imports BallotProtocol QuorumBlocking
begin

text \<open>
  The nomination protocol: every operation of \<^verbatim>\<open>src/scp/NominationProtocol.cpp\<close> in the order of the
  source. Two loops of the source may run forever, depending on the driver: the search for new round
  leaders, and the processing of the node's own nominations, which has no bound on its nesting. They
  are \<^theory_text>\<open>partial_function\<close>s whose value is \<^term>\<open>None\<close> for a run that does not end. The predicates on
  statements read the nomination of a statement; the source reads it with \<^verbatim>\<open>pledges.nominate()\<close>, and
  \<^verbatim>\<open>mLatestNominations\<close> holds nominations only.
\<close>

section \<open>Statements\<close>

definition upd_nom :: "(Nomination \<Rightarrow> Nomination) \<Rightarrow> Slot \<Rightarrow> Slot" where
  "upd_nom f s = s\<lparr>mNomination := f (mNomination s)\<rparr>"

text \<open>\<^verbatim>\<open>std::includes\<close> on two sorted ranges.\<close>

fun std_includes :: "'a::linorder list \<Rightarrow> 'a list \<Rightarrow> bool" where
  "std_includes xs [] = True"
| "std_includes [] (y # ys) = False"
| "std_includes (x # xs) (y # ys) =
     (if y < x then False else if x < y then std_includes xs (y # ys) else std_includes xs ys)"

text \<open>The result and the out-parameter \<^verbatim>\<open>notEqual\<close>.\<close>

definition isSubsetHelper :: "val list \<Rightarrow> val list \<Rightarrow> bool \<times> bool" where
  "isSubsetHelper p v =
     (if length p \<le> length v
      then (let res = std_includes v p in (res, if res then length p \<noteq> length v else True))
      else (False, True))"

definition isNewerNomination2 :: "SCPStatement \<Rightarrow> SCPStatement \<Rightarrow> bool" where
  "isNewerNomination2 oldst st =
     (case (pledges oldst, pledges st) of
        (NOMINATE _ oldVotes oldAccepted, NOMINATE _ votes accepted) \<Rightarrow>
          (let (sub, grows) = isSubsetHelper oldVotes votes in
           if sub then
             (let (sub', g) = isSubsetHelper oldAccepted accepted in if sub' then grows \<or> g else False)
           else False)
      | _ \<Rightarrow> False)"

definition isNewerNomination :: "node_id \<Rightarrow> SCPStatement \<Rightarrow> Slot \<Rightarrow> bool" where
  "isNewerNomination n st s =
     (case omap_find (mLatestNominations (mNomination s)) n of
        None \<Rightarrow> True
      | Some old \<Rightarrow> isNewerNomination2 (stmt old) st)"

text \<open>\<^verbatim>\<open>std::adjacent_find\<close> finds no two neighbours that are out of order.\<close>

fun adjacentIncreasing :: "'a::linorder list \<Rightarrow> bool" where
  "adjacentIncreasing (x # y # xs) = (if \<not> x < y then False else adjacentIncreasing (y # xs))"
| "adjacentIncreasing _ = True"

definition isSane :: "SCPStatement \<Rightarrow> bool" where
  "isSane st =
     (case pledges st of
        NOMINATE _ votes accepted \<Rightarrow>
          length votes + length accepted \<noteq> 0 \<and> adjacentIncreasing votes \<and> adjacentIncreasing accepted
      | _ \<Rightarrow> False)"

definition recordNomination :: "SCPEnvelope \<Rightarrow> Slot \<Rightarrow> Slot" where
  "recordNomination env s =
     recordStatement (stmt env)
       (upd_nom (\<lambda>n. n\<lparr>mLatestNominations := omap_insert (nodeID (stmt env)) env (mLatestNominations n)\<rparr>) s)"

definition acceptPredicate :: "val \<Rightarrow> SCPStatement \<Rightarrow> bool" where
  "acceptPredicate v st = (case pledges st of NOMINATE _ _ accepted \<Rightarrow> v \<in> set accepted | _ \<Rightarrow> False)"

definition votePredicate :: "val \<Rightarrow> SCPStatement \<Rightarrow> bool" where
  "votePredicate v st = (case pledges st of NOMINATE _ votes _ \<Rightarrow> v \<in> set votes | _ \<Rightarrow> False)"

text \<open>The values \<^verbatim>\<open>applyAll\<close> hands to its argument, in order.\<close>

definition nominationValues :: "SCPPledges \<Rightarrow> val list" where
  "nominationValues pl =
     (case pl of NOMINATE _ votes accepted \<Rightarrow> votes @ filter (\<lambda>a. a \<notin> set votes) accepted | _ \<Rightarrow> [])"

section \<open>Round leaders\<close>

definition hashNode :: "SCPDriver \<Rightarrow> bool \<Rightarrow> node_id \<Rightarrow> Slot \<Rightarrow> scp_error + uint64" where
  "hashNode drv isPriority n s =
     (if mPreviousValue (mNomination s) = [] then Inl AssertPreviousValue
      else Inr (computeHashNode drv (mSlotIndex s) (mPreviousValue (mNomination s)) isPriority
                  (mRoundNumber (mNomination s)) n))"

definition hashValue :: "SCPDriver \<Rightarrow> val \<Rightarrow> Slot \<Rightarrow> scp_error + uint64" where
  "hashValue drv v s =
     (if mPreviousValue (mNomination s) = [] then Inl AssertPreviousValue
      else Inr (computeValueHash drv (mSlotIndex s) (mPreviousValue (mNomination s))
                  (mRoundNumber (mNomination s)) v))"

definition getNodePriority :: "SCPDriver \<Rightarrow> node_id \<Rightarrow> SCPQuorumSet \<Rightarrow> Slot \<Rightarrow> scp_error + uint64" where
  "getNodePriority drv n qset s =
     sbind (if n = localNodeID drv then Inr UINT64_MAX
            else case getNodeWeight n qset of Inl _ \<Rightarrow> Inl AssertWeight | Inr w \<Rightarrow> Inr w)
       (\<lambda>w. if w > 0 then
              sbind (hashNode drv False n s) (\<lambda>h.
                if h \<le> w then hashNode drv True n s else Inr 0)
            else Inr 0)"

text \<open>
  One node of the enumeration in \<^verbatim>\<open>updateRoundLeaders\<close>: the state is the top priority and the leaders
  found so far, unless an assertion has failed.
\<close>

definition leaderStep ::
  "SCPDriver \<Rightarrow> SCPQuorumSet \<Rightarrow> Slot \<Rightarrow> node_id \<Rightarrow> scp_error + uint64 \<times> node_id list
     \<Rightarrow> bool \<times> (scp_error + uint64 \<times> node_id list)"
where
  "leaderStep drv qset s cur st =
     (case sbind st (\<lambda>(topPriority, leaders).
             sbind (getNodePriority drv cur qset s) (\<lambda>w.
               let (topPriority, leaders) = (if w > topPriority then (w, []) else (topPriority, leaders))
               in Inr (topPriority, if w = topPriority \<and> w > 0 then set_insert cur leaders else leaders)))
      of Inl e \<Rightarrow> (False, Inl e) | Inr x \<Rightarrow> (True, Inr x))"

text \<open>The leaders of the current round.\<close>

definition newRoundLeaders :: "SCPDriver \<Rightarrow> SCPQuorumSet \<Rightarrow> Slot \<Rightarrow> scp_error + node_id list" where
  "newRoundLeaders drv qset s =
     sbind (getNodePriority drv (localNodeID drv) qset s) (\<lambda>topPriority.
     sbind (snd (forAllNodes qset (leaderStep drv qset s) (Inr (topPriority, [localNodeID drv]))))
       (\<lambda>(_, leaders). Inr leaders))"

definition leaderQSet :: "SCPDriver \<Rightarrow> SCPQuorumSet" where
  "leaderQSet drv = normalizeQSet (localQSet drv) (Some (localNodeID drv))"

definition maxLeaderCount :: "SCPDriver \<Rightarrow> nat" where
  "maxLeaderCount drv = snd (forAllNodes (leaderQSet drv) (\<lambda>_ c. (True, Suc c)) 1)"

text \<open>
  The round number is an \<^verbatim>\<open>int32\<close>; incrementing its highest value is undefined in the source and an error here.
\<close>

definition nextRound :: "Slot \<Rightarrow> unit res" where
  "nextRound s =
     (if mRoundNumber (mNomination s) < INT32_MAX
      then Inr ((), upd_nom (\<lambda>n. n\<lparr>mRoundNumber := mRoundNumber n + 1\<rparr>) s)
      else Inl RoundOverflow)"

text \<open>The while loop; each iteration adds a leader and returns, or moves to the next round.\<close>

partial_function (option) leaderLoop :: "SCPDriver \<Rightarrow> Slot \<Rightarrow> (unit res) option" where
  "leaderLoop drv s =
     (if length (mRoundLeaders (mNomination s)) < maxLeaderCount drv then
        (case newRoundLeaders drv (leaderQSet drv) s of
           Inl e \<Rightarrow> Some (Inl e)
         | Inr leaders \<Rightarrow>
             let old = mRoundLeaders (mNomination s); new = fold set_insert leaders old;
                 s' = upd_nom (\<lambda>n. n\<lparr>mRoundLeaders := new\<rparr>) s
             in if length old \<noteq> length new then Some (Inr ((), s'))
                else (case nextRound s' of Inl e \<Rightarrow> Some (Inl e) | Inr (_, s'') \<Rightarrow> leaderLoop drv s''))
      else Some (Inr ((), s)))"

declare leaderLoop.simps [code]

definition updateRoundLeaders :: "SCPDriver \<Rightarrow> Slot \<Rightarrow> unit res" where
  "updateRoundLeaders drv s = (case leaderLoop drv s of None \<Rightarrow> Inl Diverges | Some r \<Rightarrow> r)"

section \<open>Choosing values\<close>

definition nominationCandidate :: "SCPDriver \<Rightarrow> Slot \<Rightarrow> val \<Rightarrow> val option" where
  "nominationCandidate drv s v =
     (if validateValue drv (mSlotIndex s) v True = kFullyValidatedValue then Some v
      else extractValidValue drv (mSlotIndex s) v)"

fun pickNewVote :: "SCPDriver \<Rightarrow> Slot \<Rightarrow> val list \<Rightarrow> val option \<times> uint64 \<Rightarrow> scp_error + val option \<times> uint64" where
  "pickNewVote drv s [] st = Inr st"
| "pickNewVote drv s (v # vs) (newVote, newHash) =
     (case nominationCandidate drv s v of
        Some x \<Rightarrow>
          if x \<notin> set (mVotes (mNomination s)) then
            sbind (hashValue drv x s) (\<lambda>curHash.
              if curHash \<ge> newHash then pickNewVote drv s vs (Some x, curHash)
              else pickNewVote drv s vs (newVote, newHash))
          else pickNewVote drv s vs (newVote, newHash)
      | None \<Rightarrow> pickNewVote drv s vs (newVote, newHash))"

definition getNewValueFromNomination :: "SCPDriver \<Rightarrow> SCPPledges \<Rightarrow> Slot \<Rightarrow> scp_error + val option" where
  "getNewValueFromNomination drv nom s =
     sbind (pickNewVote drv s (nominationValues nom) (None, 0)) (\<lambda>(newVote, _). Inr newVote)"

section \<open>Processing nominations\<close>

text \<open>The first loop: promotes votes to accepted values. The state carries the flag \<^verbatim>\<open>modified\<close>.\<close>

definition acceptVote :: "SCPDriver \<Rightarrow> val \<Rightarrow> bool \<times> Slot \<Rightarrow> bool \<times> Slot" where
  "acceptVote drv v = (\<lambda>(modified, s).
     if v \<in> set (mAccepted (mNomination s)) then (modified, s)
     else if federatedAccept drv (votePredicate v) (acceptPredicate v) (mLatestNominations (mNomination s)) then
       if validateValue drv (mSlotIndex s) v True = kFullyValidatedValue then
         (True, upd_nom (\<lambda>n. n\<lparr>mAccepted := set_insert v (mAccepted n), mVotes := set_insert v (mVotes n)\<rparr>) s)
       else (case extractValidValue drv (mSlotIndex s) v of
           Some toVote \<Rightarrow>
             if toVote \<in> set (mVotes (mNomination s)) then (modified, s)
             else (True, upd_nom (\<lambda>n. n\<lparr>mVotes := set_insert toVote (mVotes n)\<rparr>) s)
         | None \<Rightarrow> (modified, s))
     else (modified, s))"

text \<open>The second loop: promotes accepted values to candidates.\<close>

definition ratifyAccepted :: "SCPDriver \<Rightarrow> val \<Rightarrow> bool \<times> Slot \<Rightarrow> bool \<times> Slot" where
  "ratifyAccepted drv a = (\<lambda>(newCandidates, s).
     if a \<in> set (mCandidates (mNomination s)) then (newCandidates, s)
     else if federatedRatify drv (acceptPredicate a) (mLatestNominations (mNomination s)) then
       (True, upd_nom (\<lambda>n. n\<lparr>mCandidates := set_insert a (mCandidates n)\<rparr>) s)
     else (newCandidates, s))"

text \<open>A new vote taken from a leader's nomination, and the notification of the driver.\<close>

definition addVote :: "val \<Rightarrow> Slot \<Rightarrow> Slot" where
  "addVote v s = logCall (NominatingValue v) (upd_nom (\<lambda>n. n\<lparr>mVotes := set_insert v (mVotes n)\<rparr>) s)"

definition takeLeaderVote :: "SCPDriver \<Rightarrow> SCPStatement \<Rightarrow> bool \<times> Slot \<Rightarrow> scp_error + bool \<times> Slot" where
  "takeLeaderVote drv st = (\<lambda>(modified, s).
     if mCandidates (mNomination s) = [] \<and> nodeID st \<in> set (mRoundLeaders (mNomination s)) then
       sbind (getNewValueFromNomination drv (pledges st) s) (\<lambda>newVote.
         case newVote of
           Some v \<Rightarrow> Inr (True, addVote v s)
         | None \<Rightarrow> Inr (modified, s))
     else Inr (modified, s))"

text \<open>The statement of \<^verbatim>\<open>emitNomination\<close>, and what it does with the result of processing it.\<close>

definition nominationEnvelope :: "SCPDriver \<Rightarrow> Slot \<Rightarrow> SCPEnvelope" where
  "nominationEnvelope drv s =
     createEnvelope drv s (NOMINATE (localQSetHash drv) (mVotes (mNomination s)) (mAccepted (mNomination s)))"

definition afterEmitNomination :: "SCPEnvelope \<Rightarrow> EnvelopeState \<Rightarrow> Slot \<Rightarrow> unit res" where
  "afterEmitNomination envelope r s =
     (if r = VALID then
        (if (case mLastNomEnvelope (mNomination s) of
               None \<Rightarrow> True
             | Some l \<Rightarrow> isNewerNomination2 (stmt l) (stmt envelope))
         then
           let s = upd_nom (\<lambda>n. n\<lparr>mLastNomEnvelope := Some envelope\<rparr>) s
           in Inr ((), if mFullyValidated s then logCall (EmitEnvelope envelope) s else s)
         else Inr ((), s))
      else Inl MovedToBadState)"

definition emitNomination ::
  "SCPDriver \<Rightarrow> (SCPEnvelope \<Rightarrow> Slot \<Rightarrow> (EnvelopeState res) option) \<Rightarrow> Slot \<Rightarrow> (unit res) option"
where
  "emitNomination drv proc s =
     Option.bind (proc (nominationEnvelope drv s) s)
       (\<lambda>r. Some (bindE r (\<lambda>r s'. afterEmitNomination (nominationEnvelope drv s) r s')))"

lemma emitNomination_mono [partial_function_mono]:
  assumes "\<And>e s. mono_option (\<lambda>f. P f e s)"
  shows "mono_option (\<lambda>f. emitNomination drv (P f) s)"
  unfolding emitNomination_def by (intro bind_mono assms option.const_mono)

text \<open>The end of \<^verbatim>\<open>processEnvelope\<close>: new candidates are combined and handed to the ballot protocol.\<close>

definition updateCandidates :: "SCPDriver \<Rightarrow> Slot \<Rightarrow> EnvelopeState res" where
  "updateCandidates drv s =
     (case combineCandidates drv (mSlotIndex s) (mCandidates (mNomination s)) of
        None \<Rightarrow> Inl NullDeref
      | Some v \<Rightarrow>
          let s = upd_nom (\<lambda>n. n\<lparr>mLatestCompositeCandidate := Some v\<rparr>) s;
              s = logCall (UpdatedCandidateValue v) s
          in bindE (slotBumpState drv v False s) (\<lambda>_ s. Inr (VALID, s)))"

text \<open>The promotions of one nomination: whether to emit, whether there are new candidates, the state.\<close>

definition promote :: "SCPDriver \<Rightarrow> SCPStatement \<Rightarrow> Slot \<Rightarrow> scp_error + bool \<times> bool \<times> Slot" where
  "promote drv st s =
     (let votes = (case pledges st of NOMINATE _ votes _ \<Rightarrow> votes | _ \<Rightarrow> []);
          (modified, s) = fold (acceptVote drv) votes (False, s);
          (newCandidates, s) = fold (ratifyAccepted drv) (mAccepted (mNomination s)) (False, s)
      in sbind (takeLeaderVote drv st (modified, s)) (\<lambda>(modified, s). Inr (modified, newCandidates, s)))"

partial_function (option) processNomination :: "SCPDriver \<Rightarrow> SCPEnvelope \<Rightarrow> Slot \<Rightarrow> (EnvelopeState res) option" where
  "processNomination drv envelope s =
     (let st = stmt envelope in
      if \<not> isNewerNomination (nodeID st) st s then Some (Inr (INVALID, s))
      else if \<not> isSane st then Some (Inr (INVALID, s))
      else
        let s = recordNomination envelope s in
        if mNominationStarted (mNomination s) then
          (case promote drv st s of
             Inl e \<Rightarrow> Some (Inl e)
           | Inr (modified, newCandidates, s) \<Rightarrow>
               Option.bind
                 (if modified then emitNomination drv (processNomination drv) s else Some (Inr ((), s)))
                 (\<lambda>r. Some (bindE r (\<lambda>_ s. if newCandidates then updateCandidates drv s else Inr (VALID, s)))))
        else Some (Inr (VALID, s)))"

declare processNomination.simps [code]

section \<open>Starting and restoring a nomination\<close>

text \<open>The votes taken from the leaders when a round starts. The state carries the flag \<^verbatim>\<open>updated\<close>.\<close>

fun takeVotes :: "SCPDriver \<Rightarrow> node_id list \<Rightarrow> bool \<times> Slot \<Rightarrow> scp_error + bool \<times> Slot" where
  "takeVotes drv [] st = Inr st"
| "takeVotes drv (leader # ls) (updated, s) =
     (case omap_find (mLatestNominations (mNomination s)) leader of
        None \<Rightarrow> takeVotes drv ls (updated, s)
      | Some e \<Rightarrow>
          sbind (getNewValueFromNomination drv (pledges (stmt e)) s) (\<lambda>lnmV.
            case lnmV of
              Some v \<Rightarrow> takeVotes drv ls (True, addVote v s)
            | None \<Rightarrow> takeVotes drv ls (updated, s)))"

definition nominate :: "SCPDriver \<Rightarrow> val \<Rightarrow> val \<Rightarrow> bool \<Rightarrow> Slot \<Rightarrow> (bool res) option" where
  "nominate drv value previousValue timedout s =
     (if timedout \<and> \<not> mNominationStarted (mNomination s) then Some (Inr (False, s))
      else
        case bindE (nextRound (upd_nom (\<lambda>n. n\<lparr>mNominationStarted := True, mPreviousValue := previousValue\<rparr>) s))
               (\<lambda>_. updateRoundLeaders drv) of
          Inl e \<Rightarrow> Some (Inl e)
        | Inr (_, s) \<Rightarrow>
            let timeout = computeTimeout (word_of_int (mRoundNumber (mNomination s)));
                (updated, s) =
                  (if localNodeID drv \<in> set (mRoundLeaders (mNomination s)) \<and>
                      value \<notin> set (mVotes (mNomination s))
                   then (True, addVote value s) else (False, s))
            in case takeVotes drv (mRoundLeaders (mNomination s)) (updated, s) of
              Inl e \<Rightarrow> Some (Inl e)
            | Inr (updated, s) \<Rightarrow>
                let s = logCall (SetupTimer NOMINATION_TIMER timeout) s in
                if updated then
                  Option.bind (emitNomination drv (processNomination drv) s)
                    (\<lambda>r. Some (bindE r (\<lambda>_ s. Inr (True, s))))
                else Some (Inr (False, s)))"

definition setNominationStateFromEnvelope :: "SCPEnvelope \<Rightarrow> Slot \<Rightarrow> unit res" where
  "setNominationStateFromEnvelope e s =
     (if mNominationStarted (mNomination s) then Inl CannotSetState
      else
        let s = recordNomination e s in
        case pledges (stmt e) of
          NOMINATE _ votes accepted \<Rightarrow>
            Inr ((), upd_nom (\<lambda>n. n\<lparr>mAccepted := fold set_insert accepted (mAccepted n),
                                   mVotes := fold set_insert votes (mVotes n),
                                   mLastNomEnvelope := Some e\<rparr>) s)
        | _ \<Rightarrow> Inl AbortNominate)"

definition processNominationState ::
  "SCPDriver \<Rightarrow> (SCPEnvelope \<Rightarrow> 'c \<Rightarrow> bool \<times> 'c) \<Rightarrow> bool \<Rightarrow> Slot \<Rightarrow> 'c \<Rightarrow> bool \<times> 'c"
where
  "processNominationState drv f forceSelf s =
     processLatest f (mLatestNominations (mNomination s))
       (\<lambda>n. \<not> (forceSelf \<or> n \<noteq> localNodeID drv \<or> mFullyValidated s))"

definition getLatestNominationMessage :: "node_id \<Rightarrow> Slot \<Rightarrow> SCPEnvelope option" where
  "getLatestNominationMessage n s = omap_find (mLatestNominations (mNomination s)) n"

end
