(* ===== verification/NominationInv.thy ===== *)
theory NominationInv
  imports BallotAdvance NominationProtocol
begin

text \<open>
  What the nomination protocol keeps and when it ends. Its sets only grow, candidates are accepted and
  accepted values are voted for; towards the ballot protocol it makes only the steps of \<open>evolves\<close>. The
  search for leaders and the processing of nominations end under conditions on the driver.
\<close>

section \<open>Statements\<close>

lemma std_includes_iff:
  "sorted_wrt (<) xs \<Longrightarrow> sorted_wrt (<) ys \<Longrightarrow> std_includes xs ys \<longleftrightarrow> set ys \<subseteq> set xs"
proof (induction xs ys rule: std_includes.induct)
  case (3 x xs y ys)
  consider "y < x" | "x < y" | "x = y" by (metis linorder_less_linear)
  then show ?case
  proof cases
    case 1
    then have "y \<notin> set (x # xs)" using 3(3) by auto
    with 1 show ?thesis by auto
  next
    case 2
    then have "x \<notin> set (y # ys)" using 3(4) by auto
    moreover have "std_includes xs (y # ys) \<longleftrightarrow> set (y # ys) \<subseteq> set xs"
      using 3(1) 2 3(3,4) by (auto simp: less_not_sym)
    ultimately show ?thesis using 2 by (auto simp: less_not_sym)
  next
    case eq: 3
    have "std_includes xs ys \<longleftrightarrow> set ys \<subseteq> set xs" using 3(2) eq 3(3,4) by simp
    moreover have "x \<notin> set ys" using 3(4) eq by auto
    ultimately show ?thesis using eq by auto
  qed
qed auto

lemma sorted_distinct: "sorted_wrt (<) xs \<Longrightarrow> distinct (xs :: 'a::linorder list)"
  by (simp add: strict_sorted_iff)

lemma isSubsetHelper_iff:
  assumes "sorted_wrt (<) p" "sorted_wrt (<) v"
  shows "isSubsetHelper p v = (set p \<subseteq> set v, \<not> (set p \<subseteq> set v \<and> set p = set v))"
proof -
  have len: "length p = card (set p)" "length v = card (set v)"
    using sorted_distinct assms by (metis distinct_card)+
  have sub: "set p \<subseteq> set v \<Longrightarrow> length p \<le> length v" unfolding len by (simp add: card_mono)
  have eq: "length p = length v \<longleftrightarrow> set p = set v" if "set p \<subseteq> set v"
    unfolding len using that card_subset_eq[of "set v" "set p"] by auto
  show ?thesis
    using std_includes_iff[OF assms(2,1)] sub eq by (auto simp: isSubsetHelper_def Let_def)
qed

lemma adjacentIncreasing_iff: "adjacentIncreasing xs \<longleftrightarrow> sorted_wrt (<) xs"
proof (induction xs rule: adjacentIncreasing.induct)
  case (1 x y xs)
  then show ?case by (auto intro: less_trans)
qed auto

text \<open>The nomination of a statement, as the sets it votes for and accepts.\<close>

definition nom_sets :: "SCPStatement \<Rightarrow> val set \<times> val set" where
  "nom_sets st = (case pledges st of NOMINATE _ v a \<Rightarrow> (set v, set a) | _ \<Rightarrow> ({}, {}))"

lemma isSaneE:
  assumes "isSane st"
  obtains h v a where "pledges st = NOMINATE h v a" "sorted_wrt (<) v" "sorted_wrt (<) a" "v \<noteq> [] \<or> a \<noteq> []"
  using assms by (cases "pledges st") (auto simp: isSane_def adjacentIncreasing_iff)

lemma isNewerNomination2_iff:
  assumes "isSane old" "isSane st"
  shows "isNewerNomination2 old st \<longleftrightarrow>
    fst (nom_sets old) \<subseteq> fst (nom_sets st) \<and> snd (nom_sets old) \<subseteq> snd (nom_sets st) \<and> nom_sets old \<noteq> nom_sets st"
proof -
  obtain h v a where o: "pledges old = NOMINATE h v a" "sorted_wrt (<) v" "sorted_wrt (<) a"
    using isSaneE[OF assms(1)] by metis
  obtain h' v' a' where n: "pledges st = NOMINATE h' v' a'" "sorted_wrt (<) v'" "sorted_wrt (<) a'"
    using isSaneE[OF assms(2)] by metis
  show ?thesis
    using isSubsetHelper_iff[OF o(2) n(2)] isSubsetHelper_iff[OF o(3) n(3)]
    by (auto simp: isNewerNomination2_def nom_sets_def o(1) n(1))
qed

section \<open>Steps of the nomination protocol\<close>

text \<open>
  The sets of the nomination only grow, and a statement of a node is replaced by a newer one.
\<close>

definition noms_ok :: "(node_id \<times> SCPEnvelope) list \<Rightarrow> bool" where
  "noms_ok m \<longleftrightarrow> omap_sorted m \<and> (\<forall>(n, e) \<in> set m. nodeID (stmt e) = n \<and> isSane (stmt e))"

definition ninv :: "Nomination \<Rightarrow> bool" where
  "ninv n \<longleftrightarrow>
     sorted_wrt (<) (mVotes n) \<and> sorted_wrt (<) (mAccepted n) \<and> sorted_wrt (<) (mCandidates n) \<and>
     sorted_wrt (<) (mRoundLeaders n) \<and>
     set (mAccepted n) \<subseteq> set (mVotes n) \<and> set (mCandidates n) \<subseteq> set (mAccepted n) \<and>
     (mNominationStarted n \<longrightarrow> mPreviousValue n \<noteq> []) \<and>
     0 \<le> mRoundNumber n \<and> mRoundNumber n \<le> INT32_MAX \<and> noms_ok (mLatestNominations n)"

definition noms_step :: "(node_id \<times> SCPEnvelope) list \<Rightarrow> (node_id \<times> SCPEnvelope) list \<Rightarrow> bool" where
  "noms_step m m' \<longleftrightarrow>
     (\<forall>k e. omap_find m k = Some e \<longrightarrow>
        (\<exists>e'. omap_find m' k = Some e' \<and> fst (nom_sets (stmt e)) \<subseteq> fst (nom_sets (stmt e')) \<and>
              snd (nom_sets (stmt e)) \<subseteq> snd (nom_sets (stmt e'))))"

definition grows :: "Nomination \<Rightarrow> Nomination \<Rightarrow> bool" where
  "grows n n' \<longleftrightarrow>
     set (mVotes n) \<subseteq> set (mVotes n') \<and> set (mAccepted n) \<subseteq> set (mAccepted n') \<and>
     set (mCandidates n) \<subseteq> set (mCandidates n') \<and> set (mRoundLeaders n) \<subseteq> set (mRoundLeaders n') \<and>
     mRoundNumber n \<le> mRoundNumber n' \<and> noms_step (mLatestNominations n) (mLatestNominations n')"

lemma noms_step_refl [simp]: "noms_step m m"
  by (simp add: noms_step_def)

lemma noms_step_trans: "noms_step m m' \<Longrightarrow> noms_step m' m'' \<Longrightarrow> noms_step m m''"
  unfolding noms_step_def by (meson subset_trans)

lemma grows_refl [simp]: "grows n n"
  by (simp add: grows_def)

lemma grows_trans: "grows n n' \<Longrightarrow> grows n' n'' \<Longrightarrow> grows n n''"
  unfolding grows_def using noms_step_trans by (meson order_trans subset_trans)

lemma ninv_newNomination: "ninv newNomination"
  by (simp add: ninv_def newNomination_def noms_ok_def)

text \<open>A step that touches the nomination, the history and the log only.\<close>

definition nquiet :: "Slot \<Rightarrow> Slot \<Rightarrow> bool" where
  "nquiet s s' \<longleftrightarrow>
     mSlotIndex s' = mSlotIndex s \<and> mFullyValidated s' = mFullyValidated s \<and>
     mCurrentBallot s' = mCurrentBallot s \<and> mPrepared s' = mPrepared s \<and>
     mPreparedPrime s' = mPreparedPrime s \<and> mHighBallot s' = mHighBallot s \<and> mCommit s' = mCommit s \<and>
     mLatestEnvelopes s' = mLatestEnvelopes s \<and> mPhase s' = mPhase s \<and>
     mCurrentMessageLevel s' = mCurrentMessageLevel s \<and> commits s' \<subseteq> commits s \<and>
     (\<exists>cs. mDriverCalls s' = mDriverCalls s @ cs \<and> filter isExternalized cs = [])"

lemma nquiet_binv: "nquiet s s' \<Longrightarrow> binv s' = binv s"
  by (simp add: nquiet_def binv_def pre_inv_def)

lemma nquiet_bevolves: "nquiet s s' \<Longrightarrow> bevolves drv X s s'"
  using claims_step[of s s' drv]
  by (auto simp: nquiet_def bevolves_def core_step_def externalize_justified_def calls_step_def)

lemma nquiet_refl [simp]: "nquiet s s"
  by (simp add: nquiet_def)

lemma nquiet_trans: "nquiet s s' \<Longrightarrow> nquiet s' s'' \<Longrightarrow> nquiet s s''"
  by (auto simp: nquiet_def)

text \<open>
  What one operation of the nomination protocol does, by itself (\<open>nrel\<close>) and together with the ballot
  protocol it starts (\<open>nstep\<close>).
\<close>

definition nrel :: "Slot \<Rightarrow> Slot \<Rightarrow> bool" where
  "nrel s s' \<longleftrightarrow>
     nquiet s s' \<and> grows (mNomination s) (mNomination s') \<and> (ninv (mNomination s) \<longrightarrow> ninv (mNomination s'))"

definition nstep :: "SCPDriver \<Rightarrow> Slot \<Rightarrow> Slot \<Rightarrow> bool" where
  "nstep drv s s' \<longleftrightarrow>
     binv s' \<and> ninv (mNomination s') \<and> bevolves drv {localNodeID drv} s s' \<and>
     grows (mNomination s) (mNomination s')"

lemma nrel_refl [simp]: "nrel s s"
  by (simp add: nrel_def)

lemma nrel_trans: "nrel s s' \<Longrightarrow> nrel s' s'' \<Longrightarrow> nrel s s''"
  unfolding nrel_def using nquiet_trans grows_trans by blast

lemma bevolves_local_trans:
  "bevolves drv {localNodeID drv} s s' \<Longrightarrow> bevolves drv {localNodeID drv} s' s'' \<Longrightarrow>
     bevolves drv {localNodeID drv} s s''"
  using bevolves_trans[of drv "{localNodeID drv}"] by simp

lemma nstep_trans: "nstep drv s s' \<Longrightarrow> nstep drv s' s'' \<Longrightarrow> nstep drv s s''"
  unfolding nstep_def using bevolves_local_trans grows_trans by blast

lemma nrel_nstep: "binv s \<Longrightarrow> ninv (mNomination s) \<Longrightarrow> nrel s s' \<Longrightarrow> nstep drv s s'"
  unfolding nrel_def nstep_def using nquiet_binv nquiet_bevolves by blast

lemma nomkeep_grows: "nomkeep s s' \<Longrightarrow> grows (mNomination s) (mNomination s')"
  by (auto simp: nomkeep_def grows_def)

lemma nomkeep_ninv: "nomkeep s s' \<Longrightarrow> ninv (mNomination s) \<Longrightarrow> ninv (mNomination s')"
  by (auto simp: nomkeep_def ninv_def)

lemma evolves_nstep:
  "ninv (mNomination s) \<Longrightarrow> binv s' \<Longrightarrow> evolves drv {localNodeID drv} s s' \<Longrightarrow> nstep drv s s'"
  unfolding nstep_def evolves_def using nomkeep_grows nomkeep_ninv by blast

section \<open>The operations\<close>

lemma nrel_upd_nom:
  "grows (mNomination s) (f (mNomination s)) \<Longrightarrow> (ninv (mNomination s) \<Longrightarrow> ninv (f (mNomination s))) \<Longrightarrow>
     nrel s (upd_nom f s)"
  by (simp add: nrel_def upd_nom_def nquiet_def)

lemma nrel_logCall:
  assumes "\<not> isExternalized c" "\<forall>pl \<in> emitted c. pledgesType pl = 3"
  shows "nrel s (logCall c s)"
proof -
  have "commits (logCall c s) \<subseteq> commits s" using assms(2) by (auto simp: commits_def logCall_def)
  then show ?thesis using assms(1) by (simp add: nrel_def logCall_def nquiet_def)
qed

lemma nrel_addVote: "nrel s (addVote v s)"
proof -
  have "nrel s (upd_nom (\<lambda>n. n\<lparr>mVotes := set_insert v (mVotes n)\<rparr>) s)"
    by (rule nrel_upd_nom) (auto simp: grows_def ninv_def)
  then show ?thesis unfolding addVote_def by (rule nrel_trans) (simp add: nrel_logCall)
qed

lemma nrel_recordNomination:
  assumes "isNewerNomination (nodeID (stmt e)) (stmt e) s" "isSane (stmt e)" "ninv (mNomination s)"
  shows "nrel s (recordNomination e s)"
proof -
  let ?m = "mLatestNominations (mNomination s)"
  have ok: "noms_ok ?m" using assms(3) by (simp add: ninv_def)
  then have srt: "omap_sorted ?m" by (simp add: noms_ok_def)
  have "noms_ok (omap_insert (nodeID (stmt e)) e ?m)"
    using ok assms(2) om.invar_ins[OF srt] unfolding noms_ok_def
    by (auto simp: om.entries_ins[OF srt] split: if_splits)
  moreover have "noms_step ?m (omap_insert (nodeID (stmt e)) e ?m)"
    unfolding noms_step_def
  proof (intro allI impI)
    fix k old assume old: "omap_find ?m k = Some old"
    then have "isSane (stmt old)" using ok om.entries_look[OF srt, of k old] by (auto simp: noms_ok_def)
    then show "\<exists>e'. omap_find (omap_insert (nodeID (stmt e)) e ?m) k = Some e' \<and>
        fst (nom_sets (stmt old)) \<subseteq> fst (nom_sets (stmt e')) \<and> snd (nom_sets (stmt old)) \<subseteq> snd (nom_sets (stmt e'))"
      using old assms(1,2) isNewerNomination2_iff[of "stmt old" "stmt e"]
      by (auto simp: om.look_ins[OF srt] isNewerNomination_def)
  qed
  ultimately have "nrel s (upd_nom (\<lambda>n. n\<lparr>mLatestNominations := omap_insert (nodeID (stmt e)) e (mLatestNominations n)\<rparr>) s)"
    by (intro nrel_upd_nom) (auto simp: grows_def ninv_def)
  then show ?thesis
    unfolding recordNomination_def by (rule nrel_trans) (simp add: nrel_def recordStatement_def nquiet_def)
qed

lemma acceptVote_nrel: "nrel (snd st) (snd (acceptVote drv v st))"
proof (cases st)
  case (Pair m s)
  have "nrel s (upd_nom (\<lambda>n. n\<lparr>mAccepted := set_insert v (mAccepted n), mVotes := set_insert v (mVotes n)\<rparr>) s)"
    "nrel s (upd_nom (\<lambda>n. n\<lparr>mVotes := set_insert w (mVotes n)\<rparr>) s)" for w
    by (rule nrel_upd_nom; auto simp: grows_def ninv_def)+
  then show ?thesis by (simp add: acceptVote_def Pair split: option.split)
qed

text \<open>An accepted value stays accepted, so a candidate taken from the accepted values is one.\<close>

lemma ratifyAccepted_nrel:
  "a \<in> set (mAccepted (mNomination (snd st))) \<Longrightarrow> nrel (snd st) (snd (ratifyAccepted drv a st)) \<and>
     mAccepted (mNomination (snd (ratifyAccepted drv a st))) = mAccepted (mNomination (snd st))"
proof (cases st)
  case (Pair m s)
  assume "a \<in> set (mAccepted (mNomination (snd st)))"
  then have "nrel s (upd_nom (\<lambda>n. n\<lparr>mCandidates := set_insert a (mCandidates n)\<rparr>) s)"
    by (intro nrel_upd_nom) (auto simp: grows_def ninv_def Pair)
  then show ?thesis by (simp add: ratifyAccepted_def Pair upd_nom_def)
qed

lemma fold_acceptVote_nrel: "nrel (snd st) (snd (fold (acceptVote drv) vs st))"
proof (induction vs arbitrary: st)
  case (Cons v vs)
  show ?case
    unfolding fold.simps comp_def by (rule nrel_trans[OF acceptVote_nrel Cons])
qed simp

lemma fold_ratifyAccepted_nrel:
  "set as \<subseteq> set (mAccepted (mNomination (snd st))) \<Longrightarrow> nrel (snd st) (snd (fold (ratifyAccepted drv) as st))"
proof (induction as arbitrary: st)
  case (Cons a as)
  then have "a \<in> set (mAccepted (mNomination (snd st)))" by simp
  note r = ratifyAccepted_nrel[OF this, of drv]
  then have "set as \<subseteq> set (mAccepted (mNomination (snd (ratifyAccepted drv a st))))" using Cons.prems by simp
  from Cons.IH[OF this] show ?case
    unfolding fold.simps comp_def by (rule nrel_trans[OF conjunct1[OF r]])
qed simp

lemma pickNewVote_fails:
  "mPreviousValue (mNomination s) \<noteq> [] \<Longrightarrow> pickNewVote drv s vs st \<noteq> Inl e"
  by (induction drv s vs st rule: pickNewVote.induct) (auto simp: hashValue_def split: option.split)

lemma pickNewVote_new:
  "pickNewVote drv s vs (w, h) = Inr (Some x, h') \<Longrightarrow> w = Some x \<or>
     x \<notin> set (mVotes (mNomination s)) \<and> (\<exists>v \<in> set vs. nominationCandidate drv s v = Some x)"
proof (induction vs arbitrary: w h)
  case (Cons v vs)
  let ?new = "\<lambda>x. x \<notin> set (mVotes (mNomination s)) \<and> nominationCandidate drv s v = Some x"
  have "pickNewVote drv s vs (w, h) = Inr (Some x, h') \<or>
      (\<exists>y c. ?new y \<and> pickNewVote drv s vs (Some y, c) = Inr (Some x, h'))"
    using Cons.prems
    by (cases "nominationCandidate drv s v"; cases "mPreviousValue (mNomination s) = []")
      (auto simp: hashValue_def split: if_splits)
  then show ?case
  proof
    assume "pickNewVote drv s vs (w, h) = Inr (Some x, h')"
    from Cons.IH[OF this] show ?thesis by auto
  next
    assume "\<exists>y c. ?new y \<and> pickNewVote drv s vs (Some y, c) = Inr (Some x, h')"
    then obtain y c where y: "?new y" "pickNewVote drv s vs (Some y, c) = Inr (Some x, h')" by blast
    from Cons.IH[OF y(2)] show ?thesis using y(1) by auto
  qed
qed simp

lemma takeLeaderVote_nrel:
  assumes "takeLeaderVote drv st (m, s) = Inr (m', s')"
  shows "nrel s s'"
  using assms nrel_addVote[of s]
  by (auto simp: takeLeaderVote_def sbind_def split: if_splits sum.splits option.splits)

lemma takeLeaderVote_fails:
  assumes "mPreviousValue (mNomination s) \<noteq> []"
  shows "takeLeaderVote drv st (m, s) \<noteq> Inl e"
  using pickNewVote_fails[OF assms]
  by (auto simp: takeLeaderVote_def getNewValueFromNomination_def sbind_def split: sum.split option.split)

lemma promote_split:
  "\<exists>m s1 nc s2. fold (acceptVote drv) (case pledges st of NOMINATE _ votes _ \<Rightarrow> votes | _ \<Rightarrow> []) (False, s) = (m, s1) \<and>
     fold (ratifyAccepted drv) (mAccepted (mNomination s1)) (False, s1) = (nc, s2) \<and>
     nrel s s1 \<and> nrel s1 s2 \<and>
     promote drv st s = sbind (takeLeaderVote drv st (m, s2)) (\<lambda>(m, s). Inr (m, nc, s))"
proof -
  obtain m s1 where 1: "fold (acceptVote drv) (case pledges st of NOMINATE _ votes _ \<Rightarrow> votes | _ \<Rightarrow> []) (False, s) = (m, s1)"
    by fastforce
  obtain nc s2 where 2: "fold (ratifyAccepted drv) (mAccepted (mNomination s1)) (False, s1) = (nc, s2)"
    by fastforce
  have "nrel s s1"
    using fold_acceptVote_nrel[of "(False, s)" drv "case pledges st of NOMINATE _ votes _ \<Rightarrow> votes | _ \<Rightarrow> []"] 1 by simp
  moreover have "nrel s1 s2"
    using fold_ratifyAccepted_nrel[of "mAccepted (mNomination s1)" "(False, s1)" drv] 2 by simp
  ultimately show ?thesis using 1 2 by (auto simp: promote_def Let_def)
qed

lemma promote_nrel:
  assumes "promote drv st s = Inr (m, nc, s')"
  shows "nrel s s'"
proof -
  obtain m0 s1 nc0 s2 where 1: "nrel s s1" "nrel s1 s2"
    "promote drv st s = sbind (takeLeaderVote drv st (m0, s2)) (\<lambda>(m, s). Inr (m, nc0, s))"
    using promote_split by blast
  obtain m' where "takeLeaderVote drv st (m0, s2) = Inr (m', s')"
    using assms 1(3) by (cases "takeLeaderVote drv st (m0, s2)") auto
  from takeLeaderVote_nrel[OF this] show ?thesis using 1(1,2) nrel_trans by blast
qed

definition same_prev :: "Slot \<Rightarrow> Slot \<Rightarrow> bool" where
  "same_prev s s' \<longleftrightarrow> mPreviousValue (mNomination s') = mPreviousValue (mNomination s)"

lemma fold_acceptVote_prev: "same_prev (snd st) (snd (fold (acceptVote drv) vs st))"
proof (induction vs arbitrary: st)
  case (Cons v vs)
  have "same_prev (snd st) (snd (acceptVote drv v st))"
    by (cases st) (auto simp: acceptVote_def upd_nom_def same_prev_def split: option.split)
  with Cons[of "acceptVote drv v st"] show ?case by (simp add: same_prev_def)
qed (simp add: same_prev_def)

lemma fold_ratifyAccepted_prev: "same_prev (snd st) (snd (fold (ratifyAccepted drv) vs st))"
proof (induction vs arbitrary: st)
  case (Cons v vs)
  have "same_prev (snd st) (snd (ratifyAccepted drv v st))"
    by (cases st) (auto simp: ratifyAccepted_def upd_nom_def same_prev_def)
  with Cons[of "ratifyAccepted drv v st"] show ?case by (simp add: same_prev_def)
qed (simp add: same_prev_def)

lemma promote_fails:
  assumes "mPreviousValue (mNomination s) \<noteq> []"
  shows "promote drv st s \<noteq> Inl e"
proof -
  obtain m s1 nc s2 where *:
    "fold (acceptVote drv) (case pledges st of NOMINATE _ votes _ \<Rightarrow> votes | _ \<Rightarrow> []) (False, s) = (m, s1)"
    "fold (ratifyAccepted drv) (mAccepted (mNomination s1)) (False, s1) = (nc, s2)"
    "promote drv st s = sbind (takeLeaderVote drv st (m, s2)) (\<lambda>(m, s). Inr (m, nc, s))"
    using promote_split by blast
  have "same_prev s s1" "same_prev s1 s2"
    using fold_acceptVote_prev[of "(False, s)" drv] fold_ratifyAccepted_prev[of "(False, s1)" drv] *(1,2)
    by (metis snd_conv)+
  then have "mPreviousValue (mNomination s2) \<noteq> []" using assms by (simp add: same_prev_def)
  from takeLeaderVote_fails[OF this, of drv st m] show ?thesis
    unfolding *(3) by (cases "takeLeaderVote drv st (m, s2)") auto
qed

section \<open>Processing a nomination\<close>

lemma slotBumpState_nstep:
  assumes "binv s" "ninv (mNomination s)" "mCurrentMessageLevel s < MAX_ADVANCE_SLOT_RECURSION"
  shows "post (slotBumpState drv v False s) expected_error (\<lambda>_ s'. nstep drv s s')"
proof -
  have "good drv s (slotBumpState drv v False s)"
    unfolding slotBumpState_def by (rule bumpState_post[OF assms(1) selfProc_ok[OF assms(3)]]) simp
  then show ?thesis
    unfolding good_def by (rule post_mono) (use evolves_nstep[OF assms(2)] in blast)
qed

definition nstate :: "Slot \<Rightarrow> bool" where
  "nstate s \<longleftrightarrow> binv s \<and> ninv (mNomination s) \<and> mCurrentMessageLevel s < MAX_ADVANCE_SLOT_RECURSION"

lemma nstep_nstate: "nstep drv s s' \<Longrightarrow> nstate s \<Longrightarrow> nstate s'"
  by (simp add: nstate_def nstep_def bevolves_def)

lemma nrel_nstep': "nstate s \<Longrightarrow> nrel s s' \<Longrightarrow> nstep drv s s'"
  unfolding nstate_def using nrel_nstep by blast

lemma updateCandidates_nstep:
  assumes "nstate s"
  shows "post (updateCandidates drv s) expected_error (\<lambda>_ s'. nstep drv s s')"
proof (cases "combineCandidates drv (mSlotIndex s) (mCandidates (mNomination s))")
  case None
  then show ?thesis by (simp add: updateCandidates_def)
next
  case (Some v)
  define s1 where "s1 = logCall (UpdatedCandidateValue v) (upd_nom (\<lambda>n. n\<lparr>mLatestCompositeCandidate := Some v\<rparr>) s)"
  have "nrel s (upd_nom (\<lambda>n. n\<lparr>mLatestCompositeCandidate := Some v\<rparr>) s)"
    by (rule nrel_upd_nom) (auto simp: grows_def ninv_def)
  then have "nrel s s1" unfolding s1_def by (rule nrel_trans) (simp add: nrel_logCall)
  then have s1: "nstep drv s s1" by (rule nrel_nstep'[OF assms])
  have "post (slotBumpState drv v False s1) expected_error (\<lambda>_ s'. nstep drv s1 s')"
    using nstep_nstate[OF s1 assms] by (intro slotBumpState_nstep) (simp_all add: nstate_def)
  then have "post (bindE (slotBumpState drv v False s1) (\<lambda>_ s. Inr (VALID, s))) expected_error (\<lambda>_ s'. nstep drv s s')"
    by (rule post_bindE) (use nstep_trans[OF s1] in simp)
  then show ?thesis by (simp add: updateCandidates_def Some s1_def)
qed

lemma afterEmit_nstep:
  assumes "nstate s" and nom: "pledgesType (pledges (stmt e)) = 3"
  shows "post (afterEmitNomination e r s) expected_error (\<lambda>_ s'. nstep drv s s')"
proof -
  let ?s = "upd_nom (\<lambda>n. n\<lparr>mLastNomEnvelope := Some e\<rparr>) s"
  have 1: "nrel s ?s" by (rule nrel_upd_nom) (auto simp: grows_def ninv_def)
  then have "nrel s (logCall (EmitEnvelope e) ?s)"
    by (rule nrel_trans) (simp add: nrel_logCall nom)
  with 1 show ?thesis
    using nrel_nstep'[OF assms(1)] nrel_refl by (auto simp: afterEmitNomination_def Let_def)
qed

definition nom_processed :: "SCPDriver \<Rightarrow> Slot \<Rightarrow> EnvelopeState res \<Rightarrow> bool" where
  "nom_processed drv s m \<longleftrightarrow>
     post m expected_error (\<lambda>r s'. nstep drv s s' \<and> (r = INVALID \<longrightarrow> s' = s))"

lemma emitNomination_nstep:
  assumes s: "nstate s" and proc: "\<And>e s y. proc e s = Some y \<Longrightarrow> nstate s \<Longrightarrow> nom_processed drv s y"
    and res: "emitNomination drv proc s = Some y"
  shows "post y expected_error (\<lambda>_ s'. nstep drv s s')"
proof -
  obtain x where x: "proc (nominationEnvelope drv s) s = Some x"
    "y = bindE x (\<lambda>r s'. afterEmitNomination (nominationEnvelope drv s) r s')"
    using res by (auto simp: emitNomination_def bind_eq_Some_conv)
  have "post x expected_error (\<lambda>_ s'. nstep drv s s')"
    using proc[OF x(1) s] unfolding nom_processed_def by (rule post_mono) blast
  then show ?thesis
    unfolding x(2)
  proof (rule post_bindE)
    fix r s' assume "nstep drv s s'"
    moreover have "pledgesType (pledges (stmt (nominationEnvelope drv s))) = 3"
      by (simp add: nominationEnvelope_def createEnvelope_def Let_def pledgesType_def)
    ultimately have "post (afterEmitNomination (nominationEnvelope drv s) r s') expected_error (\<lambda>_ s''. nstep drv s' s'')"
      using afterEmit_nstep nstep_nstate[OF _ s] by blast
    with \<open>nstep drv s s'\<close> nstep_trans
    show "post (afterEmitNomination (nominationEnvelope drv s) r s') expected_error (\<lambda>_ s'. nstep drv s s')"
      by (meson post_mono)
  qed
qed

type_synonym nom_proc = "SCPEnvelope \<Rightarrow> Slot \<Rightarrow> (EnvelopeState res) option"

lemma afterPromote_ok:
  assumes s: "nstep drv s s2" "nstate s2"
    and proc: "\<And>e s y. proc e s = Some y \<Longrightarrow> nstate s \<Longrightarrow> nom_processed drv s y"
    and r: "(if m then emitNomination drv proc s2 else Some (Inr ((), s2))) = Some r"
  shows "nom_processed drv s (bindE r (\<lambda>_ s. if nc then updateCandidates drv s else Inr (VALID, s)))"
proof -
  have "post r expected_error (\<lambda>_ s'. nstep drv s2 s')"
  proof (cases m)
    case True
    then show ?thesis using r proc by (intro emitNomination_nstep[OF s(2), of proc]) auto
  next
    case False
    then show ?thesis using r nrel_nstep'[OF s(2) nrel_refl] by auto
  qed
  then show ?thesis
    unfolding nom_processed_def
  proof (rule post_bindE)
    fix a s3 assume "nstep drv s2 s3"
    then have s3: "nstep drv s s3" "nstate s3" using nstep_trans[OF s(1)] nstep_nstate[OF _ s(2)] by blast+
    have "updateCandidates drv s3 \<noteq> Inr (INVALID, s')" for s'
      by (auto simp: updateCandidates_def bindE_def Let_def split: option.split sum.split)
    then show "post (if nc then updateCandidates drv s3 else Inr (VALID, s3)) expected_error
       (\<lambda>r s'. nstep drv s s' \<and> (r = INVALID \<longrightarrow> s' = s))"
      using updateCandidates_nstep[OF s3(2), of drv] s3(1) nstep_trans[OF s3(1)]
      by (cases "updateCandidates drv s3") (auto simp: post_def)
  qed
qed

text \<open>The body of \<open>processNomination\<close>, with the recursive call as a parameter.\<close>

definition nominationBody :: "nom_proc \<Rightarrow> SCPDriver \<Rightarrow> SCPEnvelope \<Rightarrow> Slot \<Rightarrow> (EnvelopeState res) option" where
  "nominationBody proc drv e s =
     (let st = stmt e in
      if \<not> isNewerNomination (nodeID st) st s then Some (Inr (INVALID, s))
      else if \<not> isSane st then Some (Inr (INVALID, s))
      else
        let s = recordNomination e s in
        if mNominationStarted (mNomination s) then
          (case promote drv st s of
             Inl e \<Rightarrow> Some (Inl e)
           | Inr (modified, newCandidates, s) \<Rightarrow>
               Option.bind
                 (if modified then emitNomination drv proc s else Some (Inr ((), s)))
                 (\<lambda>r. Some (bindE r (\<lambda>_ s. if newCandidates then updateCandidates drv s else Inr (VALID, s)))))
        else Some (Inr (VALID, s)))"

lemma processNomination_body: "processNomination drv e s = nominationBody (processNomination drv) drv e s"
  unfolding nominationBody_def by (rule processNomination.simps)

text \<open>The cases of the body: rejected, recorded only, or promoted.\<close>

lemma nominationBody_cases:
  assumes s: "nstate s"
  obtains "nominationBody proc drv e s = Some (Inr (INVALID, s))"
  | s1 where "nominationBody proc drv e s = Some (Inr (VALID, s1))" "nstep drv s s1"
  | m nc s1 s2 where "s1 = recordNomination e s" "isSane (stmt e)" "promote drv (stmt e) s1 = Inr (m, nc, s2)"
      "nstep drv s s1" "nstate s1" "nstep drv s s2" "nstate s2"
      "nominationBody proc drv e s = Option.bind
         (if m then emitNomination drv proc s2 else Some (Inr ((), s2)))
         (\<lambda>r. Some (bindE r (\<lambda>_ s. if nc then updateCandidates drv s else Inr (VALID, s))))"
proof (cases "isNewerNomination (nodeID (stmt e)) (stmt e) s \<and> isSane (stmt e)")
  case False
  then show ?thesis using that(1) by (auto simp: nominationBody_def Let_def)
next
  case True
  define s1 where "s1 = recordNomination e s"
  have "nrel s s1" unfolding s1_def using True s by (intro nrel_recordNomination) (simp_all add: nstate_def)
  then have s1: "nstep drv s s1" "nstate s1" using nrel_nstep'[OF s] nstep_nstate[OF _ s] by blast+
  show ?thesis
  proof (cases "mNominationStarted (mNomination s1)")
    case False
    then show ?thesis using that(2)[OF _ s1(1)] True by (simp add: nominationBody_def s1_def)
  next
    case started: True
    then have "mPreviousValue (mNomination s1) \<noteq> []" using s1(2) by (simp add: nstate_def ninv_def)
    then obtain m nc s2 where p: "promote drv (stmt e) s1 = Inr (m, nc, s2)"
      using promote_fails[of s1 drv "stmt e"] by (cases "promote drv (stmt e) s1") auto
    have "nstep drv s s2" "nstate s2"
      using nstep_trans[OF s1(1) nrel_nstep'[OF s1(2) promote_nrel[OF p]]] nstep_nstate[OF _ s] by blast+
    then show ?thesis
      using that(3)[OF s1_def _ p s1] True started p by (simp add: nominationBody_def s1_def)
  qed
qed

lemma nominationBody_ok:
  assumes proc: "\<And>e s y. proc e s = Some y \<Longrightarrow> nstate s \<Longrightarrow> nom_processed drv s y"
    and y: "nominationBody proc drv e s = Some y" and s: "nstate s"
  shows "nom_processed drv s y"
  using s
proof (cases rule: nominationBody_cases[of s proc drv e])
  case 1
  then show ?thesis using y nrel_nstep'[OF s nrel_refl] by (simp add: nom_processed_def)
next
  case (2 s1)
  then show ?thesis using y by (auto simp: nom_processed_def)
next
  case (3 m nc s1 s2)
  then obtain r where "(if m then emitNomination drv proc s2 else Some (Inr ((), s2))) = Some r"
    "y = bindE r (\<lambda>_ s. if nc then updateCandidates drv s else Inr (VALID, s))"
    using y[unfolded 3(8) bind_eq_Some_conv] by blast
  then show ?thesis using afterPromote_ok[OF 3(6,7) proc] by simp
qed

lemma processNomination_ok:
  assumes "processNomination drv e s = Some y" "nstate s"
  shows "nom_processed drv s y"
proof -
  have "nstate s \<longrightarrow> nom_processed drv s y"
  proof (rule processNomination.raw_induct[where P = "\<lambda>drv e s y. nstate s \<longrightarrow> nom_processed drv s y",
        OF _ assms(1)], fold nominationBody_def)
    fix proc :: "SCPDriver \<Rightarrow> nom_proc" and drv e s y
    assume "\<And>drv e s y. proc drv e s = Some y \<Longrightarrow> nstate s \<longrightarrow> nom_processed drv s y"
      and "nominationBody (proc drv) drv e s = Some y"
    then show "nstate s \<longrightarrow> nom_processed drv s y"
      using nominationBody_ok[of "proc drv" drv e s y] by blast
  qed
  with assms(2) show ?thesis by simp
qed

section \<open>Termination\<close>

text \<open>
  Processing a nomination ends when the values the node can vote for come from a finite set: each
  nested call is for a larger nomination of the node itself.
\<close>

definition votes_in :: "SCPDriver \<Rightarrow> Slot \<Rightarrow> val set \<Rightarrow> bool" where
  "votes_in drv s U \<longleftrightarrow>
     set (mVotes (mNomination s)) \<subseteq> U \<and> set (mAccepted (mNomination s)) \<subseteq> U \<and>
     (\<forall>v \<in> U. \<forall>x. extractValidValue drv (mSlotIndex s) v = Some x \<longrightarrow> x \<in> U)"

definition room :: "val set \<Rightarrow> Slot \<Rightarrow> nat" where
  "room U s = (card U - card (set (mVotes (mNomination s)))) + (card U - card (set (mAccepted (mNomination s))))"

lemma room_decreases:
  assumes "finite U" "set (mVotes (mNomination s')) \<subseteq> U" "set (mAccepted (mNomination s')) \<subseteq> U"
    and "grows (mNomination s) (mNomination s')"
    and "set (mVotes (mNomination s)) \<noteq> set (mVotes (mNomination s')) \<or>
         set (mAccepted (mNomination s)) \<noteq> set (mAccepted (mNomination s'))"
  shows "room U s' < room U s"
proof -
  let ?V = "set (mVotes (mNomination s))" and ?V' = "set (mVotes (mNomination s'))"
  let ?A = "set (mAccepted (mNomination s))" and ?A' = "set (mAccepted (mNomination s'))"
  have sub: "?V \<subseteq> ?V'" "?A \<subseteq> ?A'" using assms(4) by (simp_all add: grows_def)
  have le: "card ?V \<le> card ?V'" "card ?A \<le> card ?A'" "card ?V' \<le> card U" "card ?A' \<le> card U"
    using sub assms(1-3) by (simp_all add: card_mono)
  have "card ?V < card ?V' \<or> card ?A < card ?A'"
    using assms(5) sub psubset_card_mono[of ?V' ?V] psubset_card_mono[of ?A' ?A] by auto
  then show ?thesis unfolding room_def using le by linarith
qed

definition changed :: "Slot \<Rightarrow> Slot \<Rightarrow> bool" where
  "changed s s' \<longleftrightarrow>
     set (mVotes (mNomination s)) \<noteq> set (mVotes (mNomination s')) \<or>
     set (mAccepted (mNomination s)) \<noteq> set (mAccepted (mNomination s'))"

text \<open>The flag \<^verbatim>\<open>modified\<close> is set only when a vote or an accepted value was added.\<close>

definition prog :: "SCPDriver \<Rightarrow> val set \<Rightarrow> Slot \<Rightarrow> bool \<times> Slot \<Rightarrow> bool" where
  "prog drv U s0 st \<longleftrightarrow>
     votes_in drv (snd st) U \<and> grows (mNomination s0) (mNomination (snd st)) \<and> (fst st \<longrightarrow> changed s0 (snd st))"

lemma prog_add:
  assumes "prog drv U s0 (m, s)" "grows (mNomination s) (mNomination s')" "votes_in drv s' U"
    and "m' \<Longrightarrow> m \<or> changed s s'"
  shows "prog drv U s0 (m', s')"
  using assms grows_trans[of "mNomination s0" "mNomination s" "mNomination s'"]
  unfolding prog_def changed_def grows_def by auto

lemma acceptVote_prog:
  assumes p: "prog drv U s0 (m, s)" and v: "v \<in> U"
  shows "prog drv U s0 (acceptVote drv v (m, s))"
proof -
  let ?s1 = "upd_nom (\<lambda>n. n\<lparr>mAccepted := set_insert v (mAccepted n), mVotes := set_insert v (mVotes n)\<rparr>) s"
  let ?s2 = "\<lambda>w. upd_nom (\<lambda>n. n\<lparr>mVotes := set_insert w (mVotes n)\<rparr>) s"
  have V: "votes_in drv s U" using p by (simp add: prog_def)
  have "prog drv U s0 (True, ?s1)" if "v \<notin> set (mAccepted (mNomination s))"
    using V v that by (intro prog_add[OF p]) (auto simp: grows_def votes_in_def changed_def upd_nom_def)
  moreover have "prog drv U s0 (True, ?s2 w)"
    if "w \<notin> set (mVotes (mNomination s))" "extractValidValue drv (mSlotIndex s) v = Some w" for w
    using V v that by (intro prog_add[OF p]) (auto simp: grows_def votes_in_def changed_def upd_nom_def)
  ultimately show ?thesis using p by (simp add: acceptVote_def split: option.split)
qed

lemma fold_acceptVote_prog:
  "prog drv U s0 st \<Longrightarrow> set vs \<subseteq> U \<Longrightarrow> prog drv U s0 (fold (acceptVote drv) vs st)"
proof (induction vs arbitrary: st)
  case (Cons v vs)
  have "prog drv U s0 (acceptVote drv v st)"
    using acceptVote_prog[of drv U s0 "fst st" "snd st" v] Cons.prems by simp
  then show ?case using Cons.IH[of "acceptVote drv v st"] Cons.prems by simp
qed simp

lemma ratifyAccepted_keeps:
  "mVotes (mNomination (snd (ratifyAccepted drv a st))) = mVotes (mNomination (snd st)) \<and>
   mAccepted (mNomination (snd (ratifyAccepted drv a st))) = mAccepted (mNomination (snd st)) \<and>
   mSlotIndex (snd (ratifyAccepted drv a st)) = mSlotIndex (snd st)"
  by (cases st) (simp add: ratifyAccepted_def upd_nom_def)

lemma fold_ratifyAccepted_keeps:
  "mVotes (mNomination (snd (fold (ratifyAccepted drv) as st))) = mVotes (mNomination (snd st)) \<and>
   mAccepted (mNomination (snd (fold (ratifyAccepted drv) as st))) = mAccepted (mNomination (snd st)) \<and>
   mSlotIndex (snd (fold (ratifyAccepted drv) as st)) = mSlotIndex (snd st)"
proof (induction as arbitrary: st)
  case (Cons a as)
  show ?case using Cons[of "ratifyAccepted drv a st"] ratifyAccepted_keeps[of drv a st] by simp
qed simp

lemma takeLeaderVote_prog:
  assumes p: "prog drv U s0 (m, s)" and vals: "set (nominationValues (pledges st)) \<subseteq> U"
    and res: "takeLeaderVote drv st (m, s) = Inr (m', s')"
  shows "prog drv U s0 (m', s')"
proof (cases "(m', s') = (m, s)")
  case True
  then show ?thesis using p by simp
next
  case False
  then obtain v where v0: "getNewValueFromNomination drv (pledges st) s = Inr (Some v)"
    and v: "m' = True" "s' = addVote v s"
    using res
    by (cases "getNewValueFromNomination drv (pledges st) s") (auto simp: takeLeaderVote_def split: if_splits option.splits)
  obtain h where h: "pickNewVote drv s (nominationValues (pledges st)) (None, 0) = Inr (Some v, h)"
    using v0 by (cases "pickNewVote drv s (nominationValues (pledges st)) (None, 0)")
      (auto simp: getNewValueFromNomination_def)
  have V: "votes_in drv s U" using p by (simp add: prog_def)
  obtain u where u: "u \<in> U" "nominationCandidate drv s u = Some v" "v \<notin> set (mVotes (mNomination s))"
    using pickNewVote_new[OF h] vals by auto
  have "v \<in> U" using u(1,2) V by (auto simp: nominationCandidate_def votes_in_def split: if_splits)
  then show ?thesis
    unfolding v using V u(3)
    by (intro prog_add[OF p]) (auto simp: addVote_def logCall_def upd_nom_def grows_def votes_in_def changed_def)
qed

lemma promote_prog:
  assumes V: "votes_in drv s U" and vals: "set (nominationValues (pledges st)) \<subseteq> U"
    and res: "promote drv st s = Inr (m, nc, s')"
  shows "prog drv U s (m, s')"
proof -
  let ?vs = "case pledges st of NOMINATE _ votes _ \<Rightarrow> votes | _ \<Rightarrow> []"
  obtain m1 s1 nc1 s2 where *:
    "fold (acceptVote drv) ?vs (False, s) = (m1, s1)"
    "fold (ratifyAccepted drv) (mAccepted (mNomination s1)) (False, s1) = (nc1, s2)" "nrel s s1" "nrel s1 s2"
    "promote drv st s = sbind (takeLeaderVote drv st (m1, s2)) (\<lambda>(m, s). Inr (m, nc1, s))"
    using promote_split by blast
  have "set ?vs \<subseteq> U" using vals by (cases "pledges st") (simp_all add: nominationValues_def)
  then have p1: "prog drv U s (m1, s1)"
    using fold_acceptVote_prog[of drv U s "(False, s)" ?vs] V *(1) by (simp add: prog_def)
  have same: "mVotes (mNomination s2) = mVotes (mNomination s1)" "mAccepted (mNomination s2) = mAccepted (mNomination s1)"
    "mSlotIndex s2 = mSlotIndex s1"
    using fold_ratifyAccepted_keeps[of drv "mAccepted (mNomination s1)" "(False, s1)"] *(2) by simp_all
  have "prog drv U s (m1, s2)"
    by (rule prog_add[OF p1]) (use *(4) p1 same in \<open>auto simp: nrel_def prog_def votes_in_def\<close>)
  moreover obtain m' where "takeLeaderVote drv st (m1, s2) = Inr (m, s')"
    using res *(5) by (cases "takeLeaderVote drv st (m1, s2)") auto
  ultimately show ?thesis using takeLeaderVote_prog vals by blast
qed

lemma processNomination_ends:
  assumes "finite U" "nstate s" "votes_in drv s U" "set (nominationValues (pledges (stmt e))) \<subseteq> U"
  shows "\<exists>y. processNomination drv e s = Some y"
  using assms
proof (induction "room U s" arbitrary: s e rule: less_induct)
  case less
  show ?case
    using less.prems(2)
  proof (cases rule: nominationBody_cases[of s "processNomination drv" drv e])
    case (3 m nc s1 s2)
    have V1: "votes_in drv s1 U" "room U s1 = room U s"
      using less.prems(3) unfolding 3(1)
      by (simp_all add: votes_in_def room_def recordNomination_def recordStatement_def upd_nom_def)
    have p: "prog drv U s1 (m, s2)" by (rule promote_prog[OF V1(1) less.prems(4) 3(3)])
    have "\<exists>r. emitNomination drv (processNomination drv) s2 = Some r" if m
    proof -
      have V2: "votes_in drv s2 U" using p by (simp add: prog_def)
      have "room U s2 < room U s"
        unfolding V1(2)[symmetric] using p that less.prems(1)
        by (intro room_decreases) (auto simp: prog_def votes_in_def changed_def)
      moreover have "set (nominationValues (pledges (stmt (nominationEnvelope drv s2)))) \<subseteq> U"
        using V2 by (auto simp: nominationEnvelope_def createEnvelope_def nominationValues_def votes_in_def Let_def)
      ultimately obtain x where "processNomination drv (nominationEnvelope drv s2) s2 = Some x"
        using less.hyps[OF _ less.prems(1) 3(7) V2] by blast
      then show ?thesis by (simp add: emitNomination_def)
    qed
    then have "\<exists>r. (if m then emitNomination drv (processNomination drv) s2 else Some (Inr ((), s2))) = Some r"
      by simp
    then show ?thesis unfolding processNomination_body[of drv e s] 3(8) by (elim exE) simp
  qed (simp_all add: processNomination_body[of drv e s])
qed

section \<open>Round leaders\<close>

lemma leaderStep_eq:
  assumes "getNodePriority drv n q s = Inr w"
  shows "leaderStep drv q s n (Inr (tp, ls)) =
    (True, Inr (max tp w, if tp < w then set_insert n [] else if w = tp \<and> 0 < w then set_insert n ls else ls))"
  using assms by (auto simp: leaderStep_def max_def word_gt_0)

lemma leaders_fold:
  assumes "\<forall>n \<in> set ns. getNodePriority drv n q s = Inr (p n)" "sorted_wrt (<) ls"
  shows "\<exists>ls'. forAllValidators (leaderStep drv q s) ns (Inr (tp, ls)) = (True, Inr (Max (insert tp (p ` set ns)), ls')) \<and>
    sorted_wrt (<) ls' \<and>
    set ls' = (if Max (insert tp (p ` set ns)) = tp then set ls else {}) \<union>
      {n \<in> set ns. p n = Max (insert tp (p ` set ns)) \<and> 0 < p n}"
  using assms
proof (induction ns arbitrary: tp ls)
  case Nil
  then show ?case by simp
next
  case (Cons n ns)
  define tp1 where "tp1 = max tp (p n)"
  define ls1 where "ls1 = (if tp < p n then set_insert n [] else if p n = tp \<and> 0 < p n then set_insert n ls else ls)"
  let ?M = "Max (insert tp1 (p ` set ns))"
  have M: "Max (insert tp (p ` set (n # ns))) = ?M"
    by (cases "ns = []") (simp_all add: tp1_def max.assoc)
  have "sorted_wrt (<) ls1" using Cons.prems(2) by (auto simp: ls1_def)
  then obtain ls' where ls': "forAllValidators (leaderStep drv q s) ns (Inr (tp1, ls1)) = (True, Inr (?M, ls'))"
    "sorted_wrt (<) ls'" "set ls' = (if ?M = tp1 then set ls1 else {}) \<union> {n \<in> set ns. p n = ?M \<and> 0 < p n}"
    using Cons.IH[of ls1 tp1] Cons.prems(1) by auto
  have step: "forAllValidators (leaderStep drv q s) (n # ns) (Inr (tp, ls)) = (True, Inr (?M, ls'))"
    using leaderStep_eq[of drv n q s "p n" tp ls] Cons.prems(1) ls'(1) by (simp add: tp1_def ls1_def)
  have "tp1 \<le> ?M" by (rule Max_ge) simp_all
  then have ge: "tp \<le> ?M" "p n \<le> ?M" "tp1 \<le> ?M" by (auto simp: tp1_def)
  have "(if ?M = tp1 then set ls1 else {}) =
      (if ?M = tp then set ls else {}) \<union> (if p n = ?M \<and> 0 < p n then {n} else {})"
  proof (cases tp "p n" rule: linorder_cases)
    case less
    then have "0 < p n" "tp1 = p n" "ls1 = [n]" "?M \<noteq> tp" using ge(2) by (auto simp: tp1_def ls1_def word_gt_0)
    then show ?thesis by auto
  next
    case equal
    then have "tp1 = tp" "set ls1 = (if 0 < p n then insert n (set ls) else set ls)" by (simp_all add: tp1_def ls1_def)
    then show ?thesis using equal by auto
  next
    case greater
    then have "tp1 = tp" "ls1 = ls" "p n \<noteq> ?M" using ge(1) by (auto simp: tp1_def ls1_def)
    then show ?thesis by simp
  qed
  then have "set ls' = (if ?M = tp then set ls else {}) \<union> {x \<in> set (n # ns). p x = ?M \<and> 0 < p x}"
    unfolding ls'(3) by auto
  then show ?case unfolding M using step ls'(2) by blast
qed

lemma newRoundLeaders_eq:
  assumes "\<forall>n \<in> insert (localNodeID drv) (set (qset_nodes q)). getNodePriority drv n q s = Inr (p n)"
    and M: "M = Max (p ` insert (localNodeID drv) (set (qset_nodes q)))"
  shows "\<exists>ls. newRoundLeaders drv q s = Inr ls \<and> sorted_wrt (<) ls \<and>
    set ls = {n \<in> insert (localNodeID drv) (set (qset_nodes q)). p n = M \<and> (0 < p n \<or> n = localNodeID drv)}"
proof -
  let ?l = "localNodeID drv"
  obtain ls where ls: "forAllValidators (leaderStep drv q s) (qset_nodes q) (Inr (p ?l, [?l])) = (True, Inr (M, ls))"
    "sorted_wrt (<) ls" "set ls = (if M = p ?l then set [?l] else {}) \<union> {n \<in> set (qset_nodes q). p n = M \<and> 0 < p n}"
    using leaders_fold[of "qset_nodes q" drv q s p "[?l]" "p ?l"] assms(1) M by auto
  have "newRoundLeaders drv q s = Inr ls"
    using assms(1) ls(1) by (simp add: newRoundLeaders_def forAllNodes_nodes(1))
  then show ?thesis using ls(2,3) by (auto split: if_splits)
qed

lemma set_fold_insert: "set (fold set_insert xs ys) = set xs \<union> set ys"
  by (induction xs arbitrary: ys) auto

lemma sorted_fold_insert: "sorted_wrt (<) ys \<Longrightarrow> sorted_wrt (<) (fold set_insert xs ys)"
  by (induction xs arbitrary: ys) auto

text \<open>The state in a later round, with the same leaders.\<close>

definition inRound :: "nat \<Rightarrow> Slot \<Rightarrow> Slot" where
  "inRound k s = upd_nom (\<lambda>n. n\<lparr>mRoundNumber := mRoundNumber n + int k\<rparr>) s"

lemma inRound_0 [simp]: "inRound 0 s = s"
  by (simp add: inRound_def upd_nom_def)

lemma inRound_Suc: "inRound k (upd_nom (\<lambda>n. n\<lparr>mRoundNumber := mRoundNumber n + 1\<rparr>) s) = inRound (Suc k) s"
  by (simp add: inRound_def upd_nom_def algebra_simps)

lemma length_sorted_eq:
  "sorted_wrt (<) xs \<Longrightarrow> sorted_wrt (<) ys \<Longrightarrow> set xs \<subseteq> set ys \<Longrightarrow> length xs = length ys \<Longrightarrow> xs = (ys :: 'a::linorder list)"
proof -
  assume a: "sorted_wrt (<) xs" "sorted_wrt (<) ys" "set xs \<subseteq> set ys" "length xs = length ys"
  have "card (set xs) = card (set ys)" using a(1,2,4) sorted_distinct distinct_card by metis
  then have "set xs = set ys" using a(3) by (simp add: card_subset_eq)
  then show "xs = ys" using a(1,2) by (metis strict_sorted_equal)
qed

lemma leaderLoop_skip:
  assumes "sorted_wrt (<) (mRoundLeaders (mNomination s))"
    and "length (mRoundLeaders (mNomination s)) < maxLeaderCount drv"
    and "newRoundLeaders drv (leaderQSet drv) s = Inr ls" "set ls \<subseteq> set (mRoundLeaders (mNomination s))"
  shows "leaderLoop drv s =
    (if mRoundNumber (mNomination s) < INT32_MAX
     then leaderLoop drv (upd_nom (\<lambda>n. n\<lparr>mRoundNumber := mRoundNumber n + 1\<rparr>) s) else Some (Inl RoundOverflow))"
proof -
  have same: "fold set_insert ls (mRoundLeaders (mNomination s)) = mRoundLeaders (mNomination s)"
    using assms(4) assms(1) sorted_fold_insert[OF assms(1), of ls]
    by (metis set_fold_insert strict_sorted_equal sup.absorb2)
  have "upd_nom (\<lambda>n. n\<lparr>mRoundLeaders := mRoundLeaders (mNomination s)\<rparr>) s = s" by (simp add: upd_nom_def)
  then show ?thesis using assms(2,3) by (subst leaderLoop.simps) (simp add: Let_def same nextRound_def)
qed

text \<open>
  The search for leaders ends once some round brings a node that is not a leader yet; it then adds the
  leaders of the first such round.
\<close>

lemma leaderLoop_ends:
  assumes "sorted_wrt (<) (mRoundLeaders (mNomination s))"
    and "length (mRoundLeaders (mNomination s)) < maxLeaderCount drv"
    and "\<forall>j \<le> k. \<exists>ls. newRoundLeaders drv (leaderQSet drv) (inRound j s) = Inr ls \<and>
           (set ls \<subseteq> set (mRoundLeaders (mNomination s)) \<longleftrightarrow> j \<noteq> k)"
    and "mRoundNumber (mNomination s) + int k \<le> INT32_MAX"
  shows "\<exists>ls. newRoundLeaders drv (leaderQSet drv) (inRound k s) = Inr ls \<and>
    leaderLoop drv s = Some (Inr ((),
      upd_nom (\<lambda>n. n\<lparr>mRoundLeaders := fold set_insert ls (mRoundLeaders n)\<rparr>) (inRound k s)))"
  using assms
proof (induction k arbitrary: s)
  case 0
  then obtain ls where ls: "newRoundLeaders drv (leaderQSet drv) s = Inr ls"
    "\<not> set ls \<subseteq> set (mRoundLeaders (mNomination s))" by auto
  have "length (mRoundLeaders (mNomination s)) \<noteq> length (fold set_insert ls (mRoundLeaders (mNomination s)))"
    using length_sorted_eq[OF 0(1) sorted_fold_insert[OF 0(1), of ls]] ls(2) set_fold_insert
    by (metis Un_upper1 Un_upper2)
  then show ?case
    using ls(1) 0(2) by (subst leaderLoop.simps) (simp add: Let_def upd_nom_def)
next
  case (Suc k)
  obtain ls where ls: "newRoundLeaders drv (leaderQSet drv) s = Inr ls" "set ls \<subseteq> set (mRoundLeaders (mNomination s))"
    using Suc.prems(3) by force
  let ?s = "upd_nom (\<lambda>n. n\<lparr>mRoundNumber := mRoundNumber n + 1\<rparr>) s"
  have "leaderLoop drv s = leaderLoop drv ?s"
    using leaderLoop_skip[OF Suc.prems(1,2) ls] Suc.prems(4) by simp
  moreover have "\<forall>j \<le> k. \<exists>ls. newRoundLeaders drv (leaderQSet drv) (inRound j ?s) = Inr ls \<and>
      (set ls \<subseteq> set (mRoundLeaders (mNomination ?s)) \<longleftrightarrow> j \<noteq> k)"
  proof (intro allI impI)
    fix j assume "j \<le> k"
    then obtain ls where "newRoundLeaders drv (leaderQSet drv) (inRound (Suc j) s) = Inr ls"
      "set ls \<subseteq> set (mRoundLeaders (mNomination s)) \<longleftrightarrow> Suc j \<noteq> Suc k"
      using Suc.prems(3)[rule_format, of "Suc j"] by auto
    then show "\<exists>ls. newRoundLeaders drv (leaderQSet drv) (inRound j ?s) = Inr ls \<and>
      (set ls \<subseteq> set (mRoundLeaders (mNomination ?s)) \<longleftrightarrow> j \<noteq> k)"
      unfolding inRound_Suc by (simp add: upd_nom_def)
  qed
  moreover have "mRoundLeaders (mNomination ?s) = mRoundLeaders (mNomination s)"
    "mRoundNumber (mNomination ?s) + int k \<le> INT32_MAX"
    using Suc.prems(4) by (simp_all add: upd_nom_def)
  ultimately show ?case
    using Suc.IH[of ?s] Suc.prems(1,2) by (simp add: inRound_Suc)
qed

text \<open>When no round that the round number can still reach brings one, the round number overflows.\<close>

lemma leaderLoop_overflows:
  assumes "sorted_wrt (<) (mRoundLeaders (mNomination s))"
    and "length (mRoundLeaders (mNomination s)) < maxLeaderCount drv"
    and "\<forall>j \<le> k. \<exists>ls. newRoundLeaders drv (leaderQSet drv) (inRound j s) = Inr ls \<and>
           set ls \<subseteq> set (mRoundLeaders (mNomination s))"
    and "mRoundNumber (mNomination s) + int k = INT32_MAX"
  shows "leaderLoop drv s = Some (Inl RoundOverflow)"
  using assms
proof (induction k arbitrary: s)
  case 0
  then obtain ls where "newRoundLeaders drv (leaderQSet drv) s = Inr ls" "set ls \<subseteq> set (mRoundLeaders (mNomination s))"
    by auto
  from leaderLoop_skip[OF 0(1,2) this] 0(4) show ?case by simp
next
  case (Suc k)
  obtain ls where ls: "newRoundLeaders drv (leaderQSet drv) s = Inr ls" "set ls \<subseteq> set (mRoundLeaders (mNomination s))"
    using Suc.prems(3) by force
  let ?s = "upd_nom (\<lambda>n. n\<lparr>mRoundNumber := mRoundNumber n + 1\<rparr>) s"
  have same: "mRoundLeaders (mNomination ?s) = mRoundLeaders (mNomination s)"
    "mRoundNumber (mNomination ?s) + int k = INT32_MAX"
    using Suc.prems(4) by (simp_all add: upd_nom_def)
  have "\<exists>ls. newRoundLeaders drv (leaderQSet drv) (inRound j ?s) = Inr ls \<and> set ls \<subseteq> set (mRoundLeaders (mNomination s))"
    if "j \<le> k" for j
    using Suc.prems(3)[rule_format, of "Suc j"] that unfolding inRound_Suc by simp
  then have "leaderLoop drv ?s = Some (Inl RoundOverflow)"
    using Suc.IH[of ?s] Suc.prems(1,2) same by simp
  then show ?case using leaderLoop_skip[OF Suc.prems(1,2) ls] Suc.prems(4) by simp
qed

end
