(* ===== verification/SlotOps.thy ===== *)
theory SlotOps
  imports NominationProtocol
begin

text \<open>
  The operations a slot offers to \<^verbatim>\<open>SCP\<close> (\<^verbatim>\<open>src/scp/Slot.cpp\<close>), over the two protocols, and the table of
  slots of \<^verbatim>\<open>src/scp/SCP.cpp\<close>. An operation that may run forever (see \<open>NominationProtocol\<close>) returns an
  option.
\<close>

section \<open>A slot\<close>

definition slotProcessEnvelope :: "SCPDriver \<Rightarrow> SCPEnvelope \<Rightarrow> bool \<Rightarrow> Slot \<Rightarrow> (EnvelopeState res) option" where
  "slotProcessEnvelope drv envelope self s =
     (if slotIndex (stmt envelope) \<noteq> mSlotIndex s then Some (Inl BadSlotIndex)
      else case pledges (stmt envelope) of
        NOMINATE _ _ _ \<Rightarrow> processNomination drv envelope s
      | _ \<Rightarrow> Some (processBallotEnvelope drv envelope self s))"

definition slotSetStateFromEnvelope :: "SCPDriver \<Rightarrow> SCPEnvelope \<Rightarrow> Slot \<Rightarrow> unit res" where
  "slotSetStateFromEnvelope drv e s =
     (if nodeID (stmt e) = localNodeID drv \<and> slotIndex (stmt e) = mSlotIndex s then
        (case pledges (stmt e) of
           NOMINATE _ _ _ \<Rightarrow> setNominationStateFromEnvelope e s
         | _ \<Rightarrow> setBallotStateFromEnvelope e s)
      else Inr ((), s))"

definition getLatestMessagesSend :: "Slot \<Rightarrow> SCPEnvelope list" where
  "getLatestMessagesSend s =
     (if mFullyValidated s then
        (case mLastNomEnvelope (mNomination s) of Some e \<Rightarrow> [e] | None \<Rightarrow> []) @
        (case mLastEnvelopeEmit s of Some e \<Rightarrow> [e] | None \<Rightarrow> [])
      else [])"

definition slotProcessCurrentState ::
  "SCPDriver \<Rightarrow> (SCPEnvelope \<Rightarrow> 'c \<Rightarrow> bool \<times> 'c) \<Rightarrow> bool \<Rightarrow> Slot \<Rightarrow> 'c \<Rightarrow> bool \<times> 'c"
where
  "slotProcessCurrentState drv f forceSelf s c =
     (let (ok, c) = processNominationState drv f forceSelf s c in
      if ok then processBallotState drv f forceSelf s c else (False, c))"

definition getLatestMessage :: "node_id \<Rightarrow> Slot \<Rightarrow> SCPEnvelope option" where
  "getLatestMessage n s =
     (case getLatestBallotMessage n s of
        Some e \<Rightarrow> Some e
      | None \<Rightarrow> getLatestNominationMessage n s)"

definition getStatementValues :: "SCPStatement \<Rightarrow> val list" where
  "getStatementValues st =
     (case pledges st of
        NOMINATE _ _ _ \<Rightarrow> nominationValues (pledges st)
      | _ \<Rightarrow> getBallotStatementValues st)"

definition getEntireCurrentState :: "SCPDriver \<Rightarrow> Slot \<Rightarrow> SCPEnvelope list" where
  "getEntireCurrentState drv s =
     snd (slotProcessCurrentState drv (\<lambda>e res. (True, res @ [e])) True s [])"

section \<open>The table of slots\<close>

text \<open>
  The driver's parameters hold the local node's identity and quorum set; \<^verbatim>\<open>qsetHash\<close> is the driver's
  \<^verbatim>\<open>getHashOf\<close> applied to the XDR of a quorum set.
\<close>

record SCP =
  mDriver :: SCPDriver
  mKnownSlots :: "(uint64 \<times> Slot) list"

definition newSCP :: "(SCPQuorumSet \<Rightarrow> hash) \<Rightarrow> SCPDriver \<Rightarrow> node_id \<Rightarrow> bool \<Rightarrow> SCPQuorumSet \<Rightarrow> SCP" where
  "newSCP qsetHash driver n validator qSetLocal =
     (let q = normalizeQSet qSetLocal None in
      \<lparr> mDriver = driver\<lparr>localNodeID := n, isValidator := validator, localQSet := q, localQSetHash := qsetHash q\<rparr>,
        mKnownSlots = [] \<rparr>)"

definition updateLocalQuorumSet :: "(SCPQuorumSet \<Rightarrow> hash) \<Rightarrow> SCPQuorumSet \<Rightarrow> SCP \<Rightarrow> SCP" where
  "updateLocalQuorumSet qsetHash qSet scp =
     scp\<lparr>mDriver := (mDriver scp)\<lparr>localQSetHash := qsetHash qSet, localQSet := qSet\<rparr>\<rparr>"

text \<open>The slot, if there is one or one is to be created, and the table after that.\<close>

definition getSlot :: "uint64 \<Rightarrow> bool \<Rightarrow> SCP \<Rightarrow> Slot option \<times> SCP" where
  "getSlot i create scp =
     (case omap_find (mKnownSlots scp) i of
        Some s \<Rightarrow> (Some s, scp)
      | None \<Rightarrow>
          if create then
            let s = newSlot (mDriver scp) i
            in (Some s, scp\<lparr>mKnownSlots := omap_insert i s (mKnownSlots scp)\<rparr>)
          else (None, scp))"

text \<open>
  The table holds pointers: what an operation on a slot changes is seen through the table. \<open>onSlot\<close>
  finds the slot, runs the operation on it and puts the changed slot back.
\<close>

definition onSlot :: "uint64 \<Rightarrow> (Slot \<Rightarrow> (scp_error + 'a \<times> Slot) option) \<Rightarrow> SCP \<Rightarrow> (scp_error + 'a \<times> SCP) option" where
  "onSlot i f scp =
     (case getSlot i True scp of
        (None, scp) \<Rightarrow> Some (Inl NullDeref)
      | (Some s, scp) \<Rightarrow>
          Option.bind (f s) (\<lambda>r. Some (case r of
              Inl e \<Rightarrow> Inl e
            | Inr (a, s') \<Rightarrow> Inr (a, scp\<lparr>mKnownSlots := omap_insert i s' (mKnownSlots scp)\<rparr>))))"

definition receiveEnvelope :: "SCPEnvelope \<Rightarrow> SCP \<Rightarrow> (scp_error + EnvelopeState \<times> SCP) option" where
  "receiveEnvelope envelope scp =
     onSlot (slotIndex (stmt envelope)) (slotProcessEnvelope (mDriver scp) envelope False) scp"

definition scpNominate :: "uint64 \<Rightarrow> val \<Rightarrow> val \<Rightarrow> SCP \<Rightarrow> (scp_error + bool \<times> SCP) option" where
  "scpNominate i value previousValue scp =
     (if \<not> isValidator (mDriver scp) then Some (Inl AssertValidator)
      else onSlot i (nominate (mDriver scp) value previousValue False) scp)"

definition scpStopNomination :: "uint64 \<Rightarrow> SCP \<Rightarrow> SCP" where
  "scpStopNomination i scp =
     (case getSlot i False scp of
        (Some s, scp) \<Rightarrow> scp\<lparr>mKnownSlots := omap_insert i (stopNomination s) (mKnownSlots scp)\<rparr>
      | (None, scp) \<Rightarrow> scp)"

definition scpSetStateFromEnvelope :: "uint64 \<Rightarrow> SCPEnvelope \<Rightarrow> SCP \<Rightarrow> (scp_error + unit \<times> SCP) option" where
  "scpSetStateFromEnvelope i e scp =
     onSlot i (\<lambda>s. Some (slotSetStateFromEnvelope (mDriver scp) e s)) scp"

text \<open>The loop of \<^verbatim>\<open>purgeSlots\<close> over the table.\<close>

fun purge :: "uint64 \<Rightarrow> (uint64 \<times> Slot) list \<Rightarrow> (uint64 \<times> Slot) list" where
  "purge maxSlotIndex [] = []"
| "purge maxSlotIndex ((i, s) # m) =
     (if i < maxSlotIndex then purge maxSlotIndex m else (i, s) # purge maxSlotIndex m)"

definition purgeSlots :: "uint64 \<Rightarrow> SCP \<Rightarrow> SCP" where
  "purgeSlots maxSlotIndex scp = scp\<lparr>mKnownSlots := purge maxSlotIndex (mKnownSlots scp)\<rparr>"

definition isSlotFullyValidated :: "uint64 \<Rightarrow> SCP \<Rightarrow> bool" where
  "isSlotFullyValidated i scp =
     (case fst (getSlot i False scp) of Some s \<Rightarrow> mFullyValidated s | None \<Rightarrow> False)"

definition getKnownSlotsCount :: "SCP \<Rightarrow> nat" where
  "getKnownSlotsCount scp = length (mKnownSlots scp)"

definition getCumulativeStatemtCount :: "SCP \<Rightarrow> nat" where
  "getCumulativeStatemtCount scp =
     foldl (\<lambda>c (i, s). c + length (mStatementsHistory s)) 0 (mKnownSlots scp)"

definition scpEmpty :: "SCP \<Rightarrow> bool" where
  "scpEmpty scp \<longleftrightarrow> mKnownSlots scp = []"

definition scpGetLatestMessagesSend :: "uint64 \<Rightarrow> SCP \<Rightarrow> SCPEnvelope list" where
  "scpGetLatestMessagesSend i scp =
     (case fst (getSlot i False scp) of Some s \<Rightarrow> getLatestMessagesSend s | None \<Rightarrow> [])"

definition scpProcessCurrentState ::
  "uint64 \<Rightarrow> (SCPEnvelope \<Rightarrow> 'c \<Rightarrow> bool \<times> 'c) \<Rightarrow> bool \<Rightarrow> SCP \<Rightarrow> 'c \<Rightarrow> 'c"
where
  "scpProcessCurrentState i f forceSelf scp c =
     (case fst (getSlot i False scp) of
        Some s \<Rightarrow> snd (slotProcessCurrentState (mDriver scp) f forceSelf s c)
      | None \<Rightarrow> c)"

text \<open>\<^verbatim>\<open>lower_bound\<close>, and the loop from there.\<close>

fun visitSlots :: "(uint64 \<Rightarrow> 'c \<Rightarrow> bool \<times> 'c) \<Rightarrow> (uint64 \<times> Slot) list \<Rightarrow> 'c \<Rightarrow> 'c" where
  "visitSlots f [] c = c"
| "visitSlots f ((i, s) # m) c = (let (ok, c') = f i c in if \<not> ok then c' else visitSlots f m c')"

definition processSlotsAscendingFrom :: "uint64 \<Rightarrow> (uint64 \<Rightarrow> 'c \<Rightarrow> bool \<times> 'c) \<Rightarrow> SCP \<Rightarrow> 'c \<Rightarrow> 'c" where
  "processSlotsAscendingFrom startingSlot f scp c =
     visitSlots f (dropWhile (\<lambda>(i, s). i < startingSlot) (mKnownSlots scp)) c"

fun latestIn :: "node_id \<Rightarrow> (uint64 \<times> Slot) list \<Rightarrow> SCPEnvelope option" where
  "latestIn n [] = None"
| "latestIn n ((i, s) # m) = (case getLatestMessage n s of Some e \<Rightarrow> Some e | None \<Rightarrow> latestIn n m)"

definition scpGetLatestMessage :: "node_id \<Rightarrow> SCP \<Rightarrow> SCPEnvelope option" where
  "scpGetLatestMessage n scp = latestIn n (rev (mKnownSlots scp))"

definition scpGetExternalizingState :: "uint64 \<Rightarrow> SCP \<Rightarrow> scp_error + SCPEnvelope list" where
  "scpGetExternalizingState i scp =
     (case fst (getSlot i False scp) of
        Some s \<Rightarrow> getExternalizingState (mDriver scp) s
      | None \<Rightarrow> Inr [])"

end
