(* ===== verification/SlotRun.thy ===== *)
theory SlotRun
  imports NominationInv SlotOps
begin

text \<open>
  The runs of a slot: a step relation over the operations a slot offers, the invariant of every
  reachable state and the relation between two states of a run, and the table of slots over it.
\<close>

section \<open>Starting a nomination\<close>

lemma bindE_InrE:
  assumes "bindE m f = Inr (b, s')"
  obtains a s1 where "m = Inr (a, s1)" "f a s1 = Inr (b, s')"
  using assms by (cases m) auto

lemma nextRound_nrel: "nextRound s = Inr (u, s') \<Longrightarrow> nrel s s'"
  unfolding nextRound_def by (auto simp: grows_def ninv_def split: if_splits intro!: nrel_upd_nom)

lemma leaderLoop_nrel:
  assumes "leaderLoop drv s = Some y"
  shows "post y (\<lambda>_. True) (\<lambda>_ s'. nrel s s')"
proof (rule leaderLoop.raw_induct[where P = "\<lambda>drv s y. post y (\<lambda>_. True) (\<lambda>_ s'. nrel s s')", OF _ assms])
  fix loop :: "SCPDriver \<Rightarrow> Slot \<Rightarrow> (unit res) option" and drv s y
  assume IH: "\<And>drv s y. loop drv s = Some y \<Longrightarrow> post y (\<lambda>_. True) (\<lambda>_ s'. nrel s s')"
  assume body: "(if length (mRoundLeaders (mNomination s)) < maxLeaderCount drv then
        (case newRoundLeaders drv (leaderQSet drv) s of
           Inl e \<Rightarrow> Some (Inl e)
         | Inr leaders \<Rightarrow>
             let old = mRoundLeaders (mNomination s); new = fold set_insert leaders old;
                 s' = upd_nom (\<lambda>n. n\<lparr>mRoundLeaders := new\<rparr>) s
             in if length old \<noteq> length new then Some (Inr ((), s'))
                else (case nextRound s' of Inl e \<Rightarrow> Some (Inl e) | Inr (_, s'') \<Rightarrow> loop drv s''))
      else Some (Inr ((), s))) = Some y"
  have lead: "nrel s (upd_nom (\<lambda>n. n\<lparr>mRoundLeaders := fold set_insert ls (mRoundLeaders (mNomination s))\<rparr>) s)" for ls
    by (rule nrel_upd_nom) (auto simp: grows_def ninv_def set_fold_insert sorted_fold_insert)
  show "post y (\<lambda>_. True) (\<lambda>_ s'. nrel s s')"
  proof (cases "length (mRoundLeaders (mNomination s)) < maxLeaderCount drv")
    case False
    then have "y = Inr ((), s)" using body by (simp only: if_False option.inject)
    then show ?thesis by simp
  next
    case True
    show ?thesis
    proof (cases "newRoundLeaders drv (leaderQSet drv) s")
      case (Inl e)
      then have "y = Inl e" using body True by (simp only: if_True sum.case option.inject)
      then show ?thesis by simp
    next
      case (Inr ls)
      let ?s = "upd_nom (\<lambda>n. n\<lparr>mRoundLeaders := fold set_insert ls (mRoundLeaders (mNomination s))\<rparr>) s"
      consider "y = Inr ((), ?s)" | e where "y = Inl e" | s2 where "nextRound ?s = Inr ((), s2)" "loop drv s2 = Some y"
      proof (cases "length (mRoundLeaders (mNomination s)) \<noteq> length (fold set_insert ls (mRoundLeaders (mNomination s)))")
        case same: False
        have "(case nextRound ?s of Inl e \<Rightarrow> Some (Inl e) | Inr (_, s'') \<Rightarrow> loop drv s'') = Some y"
          using body[unfolded Let_def] True Inr same by simp
        then show thesis using that(2,3) by (cases "nextRound ?s") auto
      qed (use body[unfolded Let_def] True Inr that(1) in simp)
      then show ?thesis
      proof cases
        case (3 s2)
        show ?thesis
          by (rule post_mono[OF IH[OF 3(2)]]) (use nrel_trans[OF lead] nrel_trans[OF nextRound_nrel[OF 3(1)]] in blast)
      qed (use lead in simp_all)
    qed
  qed
qed

lemma takeVotes_nrel: "takeVotes drv ls (u, s) = Inr (u', s') \<Longrightarrow> nrel s s'"
proof (induction ls arbitrary: u s)
  case (Cons l ls)
  show ?case
  proof (cases "omap_find (mLatestNominations (mNomination s)) l")
    case None
    then show ?thesis using Cons.IH[of u s] Cons.prems by simp
  next
    case (Some e)
    show ?thesis
    proof (cases "getNewValueFromNomination drv (pledges (stmt e)) s")
      case (Inr v)
      show ?thesis
      proof (cases v)
        case None
        then show ?thesis using Cons.IH[of u s] Cons.prems Some Inr by simp
      next
        case v: (Some x)
        then have "nrel (addVote x s) s'" using Cons.IH[of True "addVote x s"] Cons.prems Some Inr by simp
        then show ?thesis using nrel_trans[OF nrel_addVote] by blast
      qed
    qed (use Cons.prems Some in simp)
  qed
qed simp

lemma nominate_nstep:
  assumes s: "nstate s" and prev: "previousValue \<noteq> []"
    and res: "nominate drv value previousValue timedout s = Some (Inr (r, s'))"
  shows "nstep drv s s'"
proof (cases "timedout \<and> \<not> mNominationStarted (mNomination s)")
  case True
  then show ?thesis using res nrel_nstep'[OF s nrel_refl] by (simp add: nominate_def)
next
  case False
  let ?s = "upd_nom (\<lambda>n. n\<lparr>mNominationStarted := True, mPreviousValue := previousValue\<rparr>) s"
  have "nrel s ?s" using prev by (intro nrel_upd_nom) (auto simp: grows_def ninv_def)
  obtain s1 where s1: "bindE (nextRound ?s) (\<lambda>_. updateRoundLeaders drv) = Inr ((), s1)"
    using res False by (cases "bindE (nextRound ?s) (\<lambda>_. updateRoundLeaders drv)") (auto simp: nominate_def)
  then obtain s0 where s0: "nextRound ?s = Inr ((), s0)" "updateRoundLeaders drv s0 = Inr ((), s1)" by (rule bindE_InrE) simp
  then have "leaderLoop drv s0 = Some (Inr ((), s1))"
    by (cases "leaderLoop drv s0") (auto simp: updateRoundLeaders_def)
  from leaderLoop_nrel[OF this] have r1: "nrel s s1"
    using nrel_trans[OF \<open>nrel s ?s\<close>] nrel_trans[OF nextRound_nrel[OF s0(1)]] by simp
  define us where "us = (if localNodeID drv \<in> set (mRoundLeaders (mNomination s1)) \<and>
                      value \<notin> set (mVotes (mNomination s1))
                   then (True, addVote value s1) else (False, s1))"
  obtain u2 s2 where us: "us = (u2, s2)" by (cases us)
  have r2: "nrel s1 s2" using us nrel_addVote by (auto simp: us_def split: if_splits)
  note eq = res[unfolded nominate_def Let_def, unfolded s1 sum.case prod.case, folded us_def, unfolded us prod.case]
  obtain u3 s3 where s3: "takeVotes drv (mRoundLeaders (mNomination s2)) (u2, s2) = Inr (u3, s3)"
    using eq False by (cases "takeVotes drv (mRoundLeaders (mNomination s2)) (u2, s2)") auto
  define s4 where "s4 = logCall (SetupTimer NOMINATION_TIMER (computeTimeout (word_of_int (mRoundNumber (mNomination s1))))) s3"
  have "nrel s3 s4" unfolding s4_def by (rule nrel_logCall) simp_all
  then have "nrel s s4" using r1 r2 takeVotes_nrel[OF s3] nrel_trans by blast
  then have s4: "nstep drv s s4" "nstate s4" using nrel_nstep'[OF s] nstep_nstate[OF _ s] by blast+
  show ?thesis
  proof (cases u3)
    case False
    then show ?thesis using eq s3 s4(1) \<open>\<not> (timedout \<and> _)\<close> by (simp add: s4_def)
  next
    case True
    then obtain y where y: "emitNomination drv (processNomination drv) s4 = Some y"
      "bindE y (\<lambda>_ s. Inr (True, s)) = Inr (r, s')"
      using eq s3 \<open>\<not> (timedout \<and> _)\<close> by (auto simp: s4_def bind_eq_Some_conv)
    have "post y expected_error (\<lambda>_ s'. nstep drv s4 s')"
      by (rule emitNomination_nstep[OF s4(2) processNomination_ok y(1)])
    then have "nstep drv s4 s'" using y(2) by (cases y) auto
    then show ?thesis using nstep_trans[OF s4(1)] by blast
  qed
qed

section \<open>Runs\<close>

text \<open>
  The contract of a transition system with an invariant and a relation between the states of a run: it
  is enough to show both for single steps.
\<close>

locale run_system =
  fixes step :: "'s \<Rightarrow> 's \<Rightarrow> bool"
    and inv :: "'s \<Rightarrow> bool"
    and rel :: "'s \<Rightarrow> 's \<Rightarrow> bool"
  assumes step_inv: "inv s \<Longrightarrow> step s s' \<Longrightarrow> inv s'"
    and step_rel: "inv s \<Longrightarrow> step s s' \<Longrightarrow> rel s s'"
    and rel_refl: "rel s s"
    and rel_trans: "rel s s' \<Longrightarrow> rel s' s'' \<Longrightarrow> rel s s''"
begin

lemma run_inv: "step\<^sup>*\<^sup>* s s' \<Longrightarrow> inv s \<Longrightarrow> inv s'"
  by (induction rule: rtranclp_induct) (auto dest: step_inv)

lemma run_rel: "step\<^sup>*\<^sup>* s s' \<Longrightarrow> inv s \<Longrightarrow> rel s s'"
proof (induction rule: rtranclp_induct)
  case (step y z)
  then have "inv y" using run_inv by blast
  then show ?case using step rel_trans step_rel by blast
qed (rule rel_refl)

end

text \<open>
  The operations of a slot that the application, the network and the timers run; \<open>E\<close> says which envelopes
  the network delivers. The previous value of a nomination is never empty: it is the encoding of the value
  of the last ledger.
\<close>

inductive slot_step :: "SCPDriver \<Rightarrow> (SCPEnvelope \<Rightarrow> bool) \<Rightarrow> Slot \<Rightarrow> Slot \<Rightarrow> bool" for drv E where
  receive: "E e \<Longrightarrow> slotProcessEnvelope drv e False s = Some (Inr (r, s')) \<Longrightarrow> slot_step drv E s s'"
| bump: "slotBumpState drv v force s = Inr (b, s') \<Longrightarrow> slot_step drv E s s'"
| abandon: "slotAbandonBallot drv s = Inr (b, s') \<Longrightarrow> slot_step drv E s s'"
| ballot_timer: "slotTimerExpired drv s = Inr (u, s') \<Longrightarrow> slot_step drv E s s'"
| nominate: "previousValue \<noteq> [] \<Longrightarrow> nominate drv v previousValue timedout s = Some (Inr (b, s')) \<Longrightarrow> slot_step drv E s s'"
| stop: "slot_step drv E s (stopNomination s)"

text \<open>The driver has been told of the externalized value once, and of no value before.\<close>

definition logged :: "Slot \<Rightarrow> bool" where
  "logged s \<longleftrightarrow>
     filter isExternalized (mDriverCalls s) =
       (if mPhase s = SCP_PHASE_EXTERNALIZE
        then map ValueExternalized (map bvalue (case mCommit s of Some c \<Rightarrow> [c] | None \<Rightarrow> [])) else [])"

definition slot_inv :: "SCPDriver \<Rightarrow> Slot \<Rightarrow> bool" where
  "slot_inv drv s \<longleftrightarrow>
     binv s \<and> ninv (mNomination s) \<and> mCurrentMessageLevel s = 0 \<and> logged s \<and> claims drv s"

definition slot_rel :: "Slot \<Rightarrow> Slot \<Rightarrow> bool" where
  "slot_rel s s' \<longleftrightarrow>
     mSlotIndex s' = mSlotIndex s \<and> core_step s s' \<and> calls_step s s' \<and>
     latest_step UNIV (mLatestEnvelopes s) (mLatestEnvelopes s') \<and> grows (mNomination s) (mNomination s')"

lemma slot_inv_new: "slot_inv drv (newSlot drv i)"
proof -
  have "mNomination (newSlot drv i) = newNomination" "mCurrentMessageLevel (newSlot drv i) = 0"
    "logged (newSlot drv i)" "claims drv (newSlot drv i)"
    by (simp_all add: newSlot_def logged_def claims_def commits_def)
  then show ?thesis using binv_newSlot ninv_newNomination by (simp add: slot_inv_def)
qed

text \<open>The part of the invariant that the steps rest on; a restored slot has it too.\<close>

definition base_inv :: "Slot \<Rightarrow> bool" where
  "base_inv s \<longleftrightarrow> binv s \<and> ninv (mNomination s) \<and> mCurrentMessageLevel s = 0"

lemma slot_inv_base: "slot_inv drv s \<longleftrightarrow> base_inv s \<and> logged s \<and> claims drv s"
  by (auto simp: slot_inv_def base_inv_def)

lemma base_inv_nstate: "base_inv s \<Longrightarrow> nstate s"
  by (simp add: base_inv_def nstate_def MAX_ADVANCE_SLOT_RECURSION_def)

lemma slot_inv_nstate: "slot_inv drv s \<Longrightarrow> nstate s"
  using base_inv_nstate slot_inv_base by blast

lemma logged_step:
  assumes "logged s" "core_step s s'" "calls_step s s'"
  shows "logged s'"
proof -
  obtain cs where cs: "mDriverCalls s' = mDriverCalls s @ cs"
    "filter isExternalized cs =
       (if mPhase s \<noteq> SCP_PHASE_EXTERNALIZE \<and> mPhase s' = SCP_PHASE_EXTERNALIZE
        then map ValueExternalized (map bvalue (case mCommit s' of Some c \<Rightarrow> [c] | None \<Rightarrow> [])) else [])"
    using assms(3) unfolding calls_step_def by blast
  show ?thesis
  proof (cases "mPhase s = SCP_PHASE_EXTERNALIZE")
    case True
    then have "mPhase s' = SCP_PHASE_EXTERNALIZE" "mCommit s' = mCommit s"
      using core_step_ext[OF assms(2)] assms(2) by (simp_all add: core_step_def)
    then show ?thesis using assms(1) True cs by (simp add: logged_def)
  next
    case False
    then show ?thesis using assms(1) cs by (simp add: logged_def)
  qed
qed

text \<open>
  One step of a slot. The statement of another node changes only to an envelope that was delivered.
\<close>

definition heard :: "(SCPEnvelope \<Rightarrow> bool) \<Rightarrow> node_id \<Rightarrow> Slot \<Rightarrow> Slot \<Rightarrow> bool" where
  "heard E n s s' \<longleftrightarrow>
     omap_find (mLatestEnvelopes s') n = omap_find (mLatestEnvelopes s) n \<or>
     (\<exists>e. E e \<and> nodeID (stmt e) = n \<and> omap_find (mLatestEnvelopes s') n = Some e)"

definition step_ok :: "SCPDriver \<Rightarrow> (SCPEnvelope \<Rightarrow> bool) \<Rightarrow> Slot \<Rightarrow> Slot \<Rightarrow> bool" where
  "step_ok drv E s s' \<longleftrightarrow>
     binv s' \<and> ninv (mNomination s') \<and> (\<exists>n. bevolves drv {localNodeID drv, n} s s') \<and>
     (\<forall>n. n \<noteq> localNodeID drv \<longrightarrow> heard E n s s') \<and> grows (mNomination s) (mNomination s')"

lemma nstep_step_ok: "nstep drv s s' \<Longrightarrow> step_ok drv E s s'"
  by (auto simp: step_ok_def nstep_def heard_def bevolves_def latest_step_def intro: exI[of _ "localNodeID drv"])

lemma evolves_step_ok:
  assumes "ninv (mNomination s)" "binv s'" "evolves drv {localNodeID drv, n} s s'"
    and "n \<noteq> localNodeID drv \<Longrightarrow> heard E n s s'"
  shows "step_ok drv E s s'"
proof -
  have "heard E k s s'" if "k \<noteq> localNodeID drv" for k
    using assms(3,4) that by (cases "k = n") (simp_all add: heard_def evolves_unfold latest_step_def)
  then show ?thesis
    using assms nomkeep_grows nomkeep_ninv unfolding step_ok_def evolves_def by blast
qed

lemma good_step_ok:
  assumes "ninv (mNomination s)" "good drv s (Inr (a, s'))"
  shows "step_ok drv E s s'"
  using assms evolves_nstep nstep_step_ok by fastforce

lemma processBallotEnvelope_processed:
  assumes "binv s" "mCurrentMessageLevel s = 0" "slotIndex (stmt e) = mSlotIndex s" "pledgesType (pledges (stmt e)) < 3"
  shows "processed drv e s (processBallotEnvelope drv e self s)"
  unfolding processBallotEnvelope_def
  by (rule processEnvelopeN_ok[OF _ _ assms(1) refl assms(3,4)])
    (simp_all add: assms(2) MAX_ADVANCE_SLOT_RECURSION_def)

lemma receive_step_ok:
  assumes inv: "base_inv s" and E: "E e" and res: "slotProcessEnvelope drv e self s = Some (Inr (r, s'))"
  shows "step_ok drv E s s'"
proof -
  have sl: "slotIndex (stmt e) = mSlotIndex s"
    using res by (cases "slotIndex (stmt e) = mSlotIndex s") (simp_all add: slotProcessEnvelope_def)
  have inv': "binv s" "ninv (mNomination s)" "mCurrentMessageLevel s = 0" using inv by (simp_all add: base_inv_def)
  show ?thesis
  proof (cases "pledgesType (pledges (stmt e)) < 3")
    case True
    then have "processBallotEnvelope drv e self s = Inr (r, s')"
      using res sl by (cases "pledges (stmt e)") (simp_all add: slotProcessEnvelope_def pledgesType_def)
    then have ok: "binv s'" "evolves drv {localNodeID drv, nodeID (stmt e)} s s'" "r = INVALID \<longrightarrow> s' = s"
      "r = VALID \<and> nodeID (stmt e) \<noteq> localNodeID drv \<longrightarrow>
          omap_find (mLatestEnvelopes s') (nodeID (stmt e)) = Some e"
      using processBallotEnvelope_processed[OF inv'(1,3) sl True, of drv self] by (simp_all add: processed_def)
    have "heard E (nodeID (stmt e)) s s'" if "nodeID (stmt e) \<noteq> localNodeID drv"
      using ok(3,4) E that by (cases r) (auto simp: heard_def)
    then show ?thesis using evolves_step_ok[OF inv'(2) ok(1,2)] by blast
  next
    case False
    then have "processNomination drv e s = Some (Inr (r, s'))"
      using res sl by (cases "pledges (stmt e)") (simp_all add: slotProcessEnvelope_def pledgesType_def)
    from processNomination_ok[OF this base_inv_nstate[OF inv]] show ?thesis
      using nstep_step_ok by (simp add: nom_processed_def)
  qed
qed

lemma bump_step_ok:
  assumes "base_inv s" "bumpState drv (selfProc drv) v force s = Inr (b, s')"
  shows "step_ok drv E s s'"
proof (cases "force \<and> at_max s")
  case True
  then show ?thesis using assms(2) bumpState_wraps[of s drv "selfProc drv" v] by simp
next
  case False
  have "good drv s (bumpState drv (selfProc drv) v force s)"
    using False base_inv_nstate[OF assms(1)] selfProc_ok by (intro bumpState_post) (auto simp: nstate_def)
  then show ?thesis
    using good_step_ok assms by (simp add: base_inv_def)
qed

lemma abandon_step_ok:
  assumes "base_inv s" "abandonBallot drv (selfProc drv) 0 s = Inr (b, s')"
  shows "step_ok drv E s s'"
proof (cases "at_max s")
  case True
  then have "s' = s" using abandonBallot_wraps[OF True, of drv "selfProc drv"] assms(2) by auto
  then show ?thesis using nstep_step_ok[OF nrel_nstep'[OF base_inv_nstate[OF assms(1)] nrel_refl]] by simp
next
  case False
  have "good drv s (abandonBallot drv (selfProc drv) 0 s)"
    using base_inv_nstate[OF assms(1)] selfProc_ok False by (intro abandonBallot_good) (auto simp: nstate_def)
  then show ?thesis using good_step_ok assms by (simp add: base_inv_def)
qed

lemma slot_step_ok:
  assumes "slot_step drv E s s'" "base_inv s"
  shows "step_ok drv E s s'"
  using assms
proof cases
  case (receive e r)
  then show ?thesis using receive_step_ok assms(2) by blast
next
  case (bump v force b)
  then show ?thesis using bump_step_ok assms(2) by (simp add: slotBumpState_def)
next
  case (abandon b)
  then show ?thesis using abandon_step_ok assms(2) by (simp add: slotAbandonBallot_def)
next
  case (ballot_timer u)
  then have "bindE (abandonBallot drv (selfProc drv) 0 s) (\<lambda>_ s. Inr ((), s)) = Inr (u, s')"
    by (simp only: slotTimerExpired_def ballotProtocolTimerExpired_def)
  then obtain b s1 where "abandonBallot drv (selfProc drv) 0 s = Inr (b, s1)" "Inr ((), s1) = Inr (u, s')"
    by (rule bindE_InrE) blast
  then show ?thesis using abandon_step_ok[OF assms(2)] by simp
next
  case (nominate previousValue v timedout b)
  then show ?thesis
    using nominate_nstep[OF base_inv_nstate[OF assms(2)]] nstep_step_ok by blast
next
  case stop
  have "quiet s (stopNomination s)" by (rule quiet_stopNomination)
  then have "binv (stopNomination s)" "evolves drv {localNodeID drv, localNodeID drv} s (stopNomination s)"
    using assms(2) quiet_binv quiet_evolves by (auto simp: base_inv_def)
  then show ?thesis using stop evolves_step_ok assms(2) unfolding base_inv_def by blast
qed

lemma step_ok_inv:
  assumes "step_ok drv E s s'" "slot_inv drv s"
  shows "slot_inv drv s' \<and> slot_rel s s'"
proof -
  obtain n where ev: "bevolves drv {localNodeID drv, n} s s'" using assms(1) by (auto simp: step_ok_def)
  then have core: "core_step s s'" "calls_step s s'" by (simp_all add: bevolves_def)
  then have "logged s'" using logged_step assms(2) by (auto simp: slot_inv_def)
  moreover have "latest_step UNIV (mLatestEnvelopes s) (mLatestEnvelopes s')"
    using ev by (simp add: bevolves_def latest_step_def)
  ultimately show ?thesis
    using assms core ev by (simp add: step_ok_def slot_inv_def slot_rel_def bevolves_def)
qed

lemma slot_rel_trans:
  assumes "slot_rel s s'" "slot_rel s' s''"
  shows "slot_rel s s''"
proof -
  note r1 = assms(1)[unfolded slot_rel_def] and r2 = assms(2)[unfolded slot_rel_def]
  have core: "core_step s s'" "core_step s' s''" using r1 r2 by simp_all
  have "calls_step s s'" "calls_step s' s''" using r1 r2 by simp_all
  note calls = calls_step_trans[OF core this]
  have "latest_step UNIV (mLatestEnvelopes s) (mLatestEnvelopes s'')"
    using latest_step_trans[of UNIV "mLatestEnvelopes s" "mLatestEnvelopes s'" UNIV "mLatestEnvelopes s''"] r1 r2
    by simp
  moreover have "grows (mNomination s) (mNomination s'')" using grows_trans r1 r2 by blast
  moreover have "mSlotIndex s'' = mSlotIndex s" using r1 r2 by simp
  ultimately show ?thesis using core_step_trans[OF core] calls by (simp add: slot_rel_def)
qed

interpretation slot_runs: run_system "slot_step drv E" "slot_inv drv" slot_rel for drv E
proof
  show "slot_inv drv s'" if "slot_inv drv s" "slot_step drv E s s'" for s s'
    using step_ok_inv[OF slot_step_ok[OF that(2)] that(1)] that(1) slot_inv_base by blast
  show "slot_rel s s'" if "slot_inv drv s" "slot_step drv E s s'" for s s'
    using step_ok_inv[OF slot_step_ok[OF that(2)] that(1)] that(1) slot_inv_base by blast
  show "slot_rel s s" for s by (simp add: slot_rel_def)
  show "slot_rel s s''" if "slot_rel s s'" "slot_rel s' s''" for s s' s''
    using that by (rule slot_rel_trans)
qed

definition reachable :: "SCPDriver \<Rightarrow> uint64 \<Rightarrow> Slot \<Rightarrow> bool" where
  "reachable drv i s \<longleftrightarrow> (slot_step drv (\<lambda>_. True))\<^sup>*\<^sup>* (newSlot drv i) s"

lemma reachable_inv: "reachable drv i s \<Longrightarrow> slot_inv drv s"
  unfolding reachable_def using slot_runs.run_inv slot_inv_new by blast

lemma reachable_step: "reachable drv i s \<Longrightarrow> slot_step drv (\<lambda>_. True) s s' \<Longrightarrow> reachable drv i s'"
  unfolding reachable_def by simp

end
