(* ===== verification/Network.thy ===== *)
theory Network
  imports SlotRun
begin

text \<open>
  A network of nodes that run the code for one slot, next to nodes that may send anything. A correct node
  takes any step of its slot, and an envelope in the name of a correct node is delivered only if that node
  has handed it to its driver. The driver of each node is fixed; its quorum set is its local quorum set.
  The main result is that correct nodes never externalize different values when their quorums intersect.
\<close>

section \<open>The network\<close>

text \<open>Signatures: nobody forges an envelope of a correct node.\<close>

definition authentic :: "node_id set \<Rightarrow> (node_id \<Rightarrow> Slot) \<Rightarrow> SCPEnvelope \<Rightarrow> bool" where
  "authentic H net e \<longleftrightarrow>
     (nodeID (stmt e) \<in> H \<longrightarrow> EmitEnvelope e \<in> set (mDriverCalls (net (nodeID (stmt e)))))"

inductive net_step :: "node_id set \<Rightarrow> (node_id \<Rightarrow> SCPDriver) \<Rightarrow> (node_id \<Rightarrow> Slot) \<Rightarrow> (node_id \<Rightarrow> Slot) \<Rightarrow> bool"
  for H drvs where
  node: "n \<in> H \<Longrightarrow> slot_step (drvs n) (authentic H net) (net n) s' \<Longrightarrow> net_step H drvs net (net(n := s'))"

definition net_start :: "(node_id \<Rightarrow> SCPDriver) \<Rightarrow> uint64 \<Rightarrow> node_id \<Rightarrow> Slot" where
  "net_start drvs i n = newSlot (drvs n) i"

text \<open>
  A set sustains the correct nodes in it when each one has a slice of its quorum set in the set. The
  quorums of correct nodes intersect when any two such sets, each with a slice of some correct node, have
  a correct node in common.
\<close>

definition sustains :: "node_id set \<Rightarrow> (node_id \<Rightarrow> SCPDriver) \<Rightarrow> node_id set \<Rightarrow> bool" where
  "sustains H drvs Q \<longleftrightarrow> (\<forall>n \<in> Q \<inter> H. sat Q (localQSet (drvs n)))"

definition quorums_intersect :: "node_id set \<Rightarrow> (node_id \<Rightarrow> SCPDriver) \<Rightarrow> bool" where
  "quorums_intersect H drvs \<longleftrightarrow>
     (\<forall>A \<in> H. \<forall>B \<in> H. \<forall>Q R. sat Q (localQSet (drvs A)) \<and> sustains H drvs Q \<and>
        sat R (localQSet (drvs B)) \<and> sustains H drvs R \<longrightarrow> Q \<inter> R \<inter> H \<noteq> {})"

text \<open>
  Each driver belongs to its node, and a hash of a correct node's quorum set is resolved to that quorum
  set or not at all.
\<close>

definition drivers_ok :: "node_id set \<Rightarrow> (node_id \<Rightarrow> SCPDriver) \<Rightarrow> bool" where
  "drivers_ok H drvs \<longleftrightarrow>
     (\<forall>n \<in> H. localNodeID (drvs n) = n) \<and>
     (\<forall>A \<in> H. \<forall>n \<in> H. \<forall>q. getQSet (drvs A) (localQSetHash (drvs n)) = Some q \<longrightarrow> q = localQSet (drvs n))"

section \<open>The invariant\<close>

definition committed_to :: "Slot \<Rightarrow> val \<Rightarrow> bool" where
  "committed_to s v \<longleftrightarrow> mPhase s \<noteq> SCP_PHASE_PREPARE \<and> map_option bvalue (mCommit s) = Some v"

definition externalized :: "Slot \<Rightarrow> val \<Rightarrow> bool" where
  "externalized s v \<longleftrightarrow> mPhase s = SCP_PHASE_EXTERNALIZE \<and> map_option bvalue (mCommit s) = Some v"

text \<open>A quorum of the node in which every correct member is committed to the value.\<close>

definition supported :: "node_id set \<Rightarrow> (node_id \<Rightarrow> SCPDriver) \<Rightarrow> (node_id \<Rightarrow> Slot) \<Rightarrow> node_id \<Rightarrow> val \<Rightarrow> bool" where
  "supported H drvs net A v \<longleftrightarrow>
     (\<exists>Q. sat Q (localQSet (drvs A)) \<and> sustains H drvs Q \<and> (\<forall>n \<in> Q \<inter> H. committed_to (net n) v))"

definition net_inv :: "node_id set \<Rightarrow> (node_id \<Rightarrow> SCPDriver) \<Rightarrow> (node_id \<Rightarrow> Slot) \<Rightarrow> bool" where
  "net_inv H drvs net \<longleftrightarrow>
     drivers_ok H drvs \<and>
     (\<forall>n \<in> H. slot_inv (drvs n) (net n)) \<and>
     (\<forall>A \<in> H. \<forall>n \<in> H. \<forall>e. n \<noteq> A \<and> omap_find (mLatestEnvelopes (net A)) n = Some e \<longrightarrow>
        EmitEnvelope e \<in> set (mDriverCalls (net n))) \<and>
     (\<forall>A \<in> H. \<forall>v. externalized (net A) v \<longrightarrow> supported H drvs net A v)"

definition net_rel :: "node_id set \<Rightarrow> (node_id \<Rightarrow> Slot) \<Rightarrow> (node_id \<Rightarrow> Slot) \<Rightarrow> bool" where
  "net_rel H net net' \<longleftrightarrow> (\<forall>n. slot_rel (net n) (net' n)) \<and> (\<forall>n. n \<notin> H \<longrightarrow> net' n = net n)"

lemma committed_to_step: "core_step s s' \<Longrightarrow> committed_to s v \<Longrightarrow> committed_to s' v"
  by (cases "mPhase s"; cases "mPhase s'") (auto simp: committed_to_def core_step_def)

lemma externalized_committed: "externalized s v \<Longrightarrow> committed_to s v"
  by (simp add: externalized_def committed_to_def)

lemma externalized_step:
  "core_step s s' \<Longrightarrow> mPhase s = SCP_PHASE_EXTERNALIZE \<Longrightarrow> externalized s' v \<Longrightarrow> externalized s v"
  by (simp add: externalized_def core_step_def)

lemma supported_step:
  assumes "\<And>n. n \<in> H \<Longrightarrow> core_step (net n) (net' n)" "supported H drvs net A v"
  shows "supported H drvs net' A v"
  using assms committed_to_step unfolding supported_def by blast

section \<open>Votes of correct nodes\<close>

lemma filterNodes_find:
  assumes "omap_sorted m" "n \<in> set (filterNodes m P)"
  obtains e where "omap_find m n = Some e" "P e"
  using assms om.entries_look[OF assms(1)] by (auto simp: filterNodes_def)

lemma ratify_quorum:
  assumes "federatedRatify drv P m" "latest_ok m"
  obtains U where "sat U (localQSet drv)"
    "\<And>n. n \<in> U \<Longrightarrow> \<exists>e q. omap_find m n = Some e \<and> P (stmt e) \<and> getQuorumSetFromStatement drv (stmt e) = Some q \<and> sat U q"
proof -
  obtain U where U: "U \<subseteq> set (filterNodes m (\<lambda>e. P (stmt e)))" "sat U (localQSet drv)"
    "sustained sat (qset_in m (\<lambda>e. getQuorumSetFromStatement drv (stmt e))) U"
    using assms(1) unfolding federatedRatify_def isQuorum_iff by blast
  have srt: "omap_sorted m" using assms(2) by (simp add: latest_ok_def)
  have "\<exists>e q. omap_find m n = Some e \<and> P (stmt e) \<and> getQuorumSetFromStatement drv (stmt e) = Some q \<and> sat U q"
    if n: "n \<in> U" for n
  proof -
    obtain e where e: "omap_find m n = Some e" "P (stmt e)"
      using filterNodes_find[OF srt, of n "\<lambda>e. P (stmt e)"] U(1) n by blast
    then show ?thesis using U(3) n by (auto simp: sustained_def qset_in_def)
  qed
  then show thesis using that U(2) by blast
qed

lemma emitted_claim:
  assumes "slot_inv drv s" "EmitEnvelope e \<in> set (mDriverCalls s)"
  shows "claim drv s (pledges (stmt e))"
proof (cases "pledgesType (pledges (stmt e)) = 1 \<or> pledgesType (pledges (stmt e)) = 2")
  case True
  have "\<exists>c \<in> set (mDriverCalls s). pledges (stmt e) \<in> emitted c"
    by (rule bexI[OF _ assms(2)]) simp
  then have "pledges (stmt e) \<in> commits s" using True by (simp add: commits_def)
  then show ?thesis using assms(1) by (simp add: slot_inv_def claims_def)
next
  case False
  then show ?thesis by (cases "pledges (stmt e)") (simp_all add: pledgesType_def claim_def)
qed

text \<open>What a commit vote of a correct node means: it is committed to the value, and the vote names its quorum set unless it has externalized.\<close>

lemma commit_vote:
  assumes "slot_inv drv s" "EmitEnvelope e \<in> set (mDriverCalls s)" "commitPredicate h i (stmt e)"
  shows "committed_to s (bvalue h)"
    "externalized s (bvalue h) \<or> getQuorumSetFromStatement drv' (stmt e) = getQSet drv' (localQSetHash drv)"
proof -
  have "claim drv s (pledges (stmt e))" by (rule emitted_claim[OF assms(1,2)])
  then show "committed_to s (bvalue h)"
    "externalized s (bvalue h) \<or> getQuorumSetFromStatement drv' (stmt e) = getQSet drv' (localQSetHash drv)"
    using assms(3) by (cases "pledges (stmt e)"; auto simp: commitPredicate_def claim_def committed_to_def
        externalized_def getQuorumSetFromStatement_def areBallotsCompatible_def split: if_splits)+
qed

section \<open>Agreement\<close>

text \<open>
  A quorum whose correct members each sustain themselves, or have a supporting quorum of their own, extends
  to one that sustains all its correct members.
\<close>

lemma supported_union:
  assumes sat: "sat U (localQSet (drvs A))"
    and vote: "\<And>n. n \<in> U \<inter> H \<Longrightarrow> n \<noteq> A \<Longrightarrow>
      committed_to (net n) v \<and> (sat U (localQSet (drvs n)) \<or> supported H drvs net n v)"
    and own: "committed_to (net A) v"
  shows "supported H drvs net A v"
proof -
  define F where "F = {Q. sustains H drvs Q \<and> (\<forall>n \<in> Q \<inter> H. committed_to (net n) v)}"
  define Q where "Q = U \<union> \<Union>F"
  have sub: "sat Q q" if "sat S q" "S = U \<or> S \<in> F" for S q
    using sat_mono[OF that(1), of Q] that(2) by (auto simp: Q_def)
  have "sat Q (localQSet (drvs n))" if n: "n \<in> Q \<inter> H" for n
  proof -
    consider "n = A" | "n \<in> U \<inter> H" "n \<noteq> A" | S where "S \<in> F" "n \<in> S \<inter> H"
      using n by (auto simp: Q_def)
    then show ?thesis
    proof cases
      case 1
      then show ?thesis using sub[OF sat] by simp
    next
      case 2
      from vote[OF this] show ?thesis using sub by (auto simp: supported_def F_def)
    next
      case (3 S)
      then show ?thesis using sub[of S] by (auto simp: F_def sustains_def)
    qed
  qed
  moreover have "committed_to (net n) v" if "n \<in> Q \<inter> H" for n
    using that vote own by (cases "n = A") (auto simp: Q_def F_def)
  ultimately show ?thesis
    using sub[OF sat] unfolding supported_def sustains_def by blast
qed

lemma net_inv_parts:
  assumes "net_inv H drvs net" "A \<in> H"
  shows "slot_inv (drvs A) (net A)" "localNodeID (drvs A) = A"
    "\<And>n e. n \<in> H \<Longrightarrow> n \<noteq> A \<Longrightarrow> omap_find (mLatestEnvelopes (net A)) n = Some e \<Longrightarrow>
       EmitEnvelope e \<in> set (mDriverCalls (net n))"
    "\<And>v. externalized (net A) v \<Longrightarrow> supported H drvs net A v"
    "\<And>n q. n \<in> H \<Longrightarrow> getQSet (drvs A) (localQSetHash (drvs n)) = Some q \<Longrightarrow> q = localQSet (drvs n)"
  using assms unfolding net_inv_def drivers_ok_def by blast+

text \<open>The step in which a node externalizes.\<close>

lemma externalize_supported:
  assumes inv: "net_inv H drvs net" and A: "A \<in> H"
    and just: "externalize_justified (drvs A) (net A) s'"
    and step: "mPhase (net A) \<noteq> SCP_PHASE_EXTERNALIZE" "externalized s' v" "binv s'"
    and heard: "\<And>n e. n \<in> H \<Longrightarrow> n \<noteq> A \<Longrightarrow> omap_find (mLatestEnvelopes s') n = Some e \<Longrightarrow>
       EmitEnvelope e \<in> set (mDriverCalls (net n))"
  shows "supported H drvs (net(A := s')) A v"
proof -
  obtain m c h where m: "mCommit s' = Some c" "mHighBallot s' = Some h" "latest_ok m"
    "federatedRatify (drvs A) (commitPredicate h (counter c, counter h)) m"
    "\<And>n. n \<noteq> A \<Longrightarrow> omap_find m n = omap_find (mLatestEnvelopes s') n"
    using just step(1,2) net_inv_parts(2)[OF inv A] by (auto simp: externalize_justified_def externalized_def)
  have v: "bvalue h = v" using step(2,3) m(1,2) by (simp add: externalized_def binv_def pre_inv_def)
  obtain U where U: "sat U (localQSet (drvs A))"
    "\<And>n. n \<in> U \<Longrightarrow> \<exists>e q. omap_find m n = Some e \<and> commitPredicate h (counter c, counter h) (stmt e) \<and>
       getQuorumSetFromStatement (drvs A) (stmt e) = Some q \<and> sat U q"
    using ratify_quorum[OF m(4,3)] by blast
  have same: "supported H drvs (net(A := s')) n v" if "supported H drvs net n v" for n
    using that externalized_committed[OF step(2)] by (auto simp: supported_def)
  show ?thesis
  proof (rule supported_union[where U = U])
    show "sat U (localQSet (drvs A))" by (rule U(1))
    show "committed_to ((net(A := s')) A) v" using externalized_committed[OF step(2)] by simp
    fix n assume n: "n \<in> U \<inter> H" "n \<noteq> A"
    obtain e q where e: "omap_find m n = Some e" "commitPredicate h (counter c, counter h) (stmt e)"
      "getQuorumSetFromStatement (drvs A) (stmt e) = Some q" "sat U q" using U(2) n(1) by blast
    have em: "EmitEnvelope e \<in> set (mDriverCalls (net n))" using heard[of n e] n e(1) m(5) by simp
    note vote = commit_vote[OF net_inv_parts(1)[OF inv] em e(2), unfolded v]
    have "committed_to (net n) v" using vote(1) n(1) by blast
    moreover have "sat U (localQSet (drvs n)) \<or> supported H drvs net n v"
      using vote(2)[where drv' = "drvs A"] e(3,4) n(1) net_inv_parts(4)[OF inv, of n v] net_inv_parts(5)[OF inv A, of n q]
      by auto
    ultimately show "committed_to ((net(A := s')) n) v \<and>
        (sat U (localQSet (drvs n)) \<or> supported H drvs (net(A := s')) n v)"
      using n(2) same by auto
  qed
qed

lemma slot_step_facts:
  assumes "slot_step drv E s s'" "slot_inv drv s"
  shows "slot_inv drv s'" "slot_rel s s'" "core_step s s'" "externalize_justified drv s s'"
    "set (mDriverCalls s) \<subseteq> set (mDriverCalls s')"
    "\<And>n. n \<noteq> localNodeID drv \<Longrightarrow> heard E n s s'"
proof -
  have ok: "step_ok drv E s s'" using slot_step_ok[OF assms(1)] assms(2) slot_inv_base by blast
  show inv: "slot_inv drv s'" "slot_rel s s'" using step_ok_inv[OF ok assms(2)] by simp_all
  show "core_step s s'" using inv(2) by (simp add: slot_rel_def)
  show "externalize_justified drv s s'" using ok by (auto simp: step_ok_def bevolves_def)
  have "calls_step s s'" using inv(2) by (simp add: slot_rel_def)
  then show "set (mDriverCalls s) \<subseteq> set (mDriverCalls s')" by (auto simp: calls_step_def)
  show "heard E n s s'" if "n \<noteq> localNodeID drv" for n using ok that by (simp add: step_ok_def)
qed

lemma net_step_inv:
  assumes inv: "net_inv H drvs net" and step: "net_step H drvs net net'"
  shows "net_inv H drvs net' \<and> net_rel H net net'"
proof -
  obtain A s' where A: "A \<in> H" "slot_step (drvs A) (authentic H net) (net A) s'" "net' = net(A := s')"
    using step by cases blast
  note facts = slot_step_facts[OF A(2) net_inv_parts(1)[OF inv A(1)], unfolded net_inv_parts(2)[OF inv A(1)]]
  have core: "core_step (net n) (net' n)" for n using facts(3) A(3) by simp
  have log: "set (mDriverCalls (net n)) \<subseteq> set (mDriverCalls (net' n))" for n using facts(5) A(3) by simp
  have said: "EmitEnvelope e \<in> set (mDriverCalls (net n))"
    if "n \<in> H" "n \<noteq> A" "omap_find (mLatestEnvelopes s') n = Some e" for n e
    using facts(6)[OF that(2)] net_inv_parts(3)[OF inv A(1) that(1,2)] that by (auto simp: heard_def authentic_def)
  have "EmitEnvelope e \<in> set (mDriverCalls (net' n))"
    if "B \<in> H" "n \<in> H" "n \<noteq> B" "omap_find (mLatestEnvelopes (net' B)) n = Some e" for B n e
    using said[of n e] net_inv_parts(3)[OF inv that(1-3), of e] that(2-4) log[of n] A(3)
    by (cases "B = A") auto
  moreover have "supported H drvs net' B v" if "B \<in> H" "externalized (net' B) v" for B v
  proof (cases "B = A \<and> mPhase (net A) \<noteq> SCP_PHASE_EXTERNALIZE")
    case True
    have "binv s'" "externalized s' v" "mPhase (net A) \<noteq> SCP_PHASE_EXTERNALIZE"
      using facts(1) True that(2) A(3) by (simp_all add: slot_inv_def)
    from externalize_supported[OF inv A(1) facts(4) this(3,2,1) said] show ?thesis
      using True A(3) by blast
  next
    case False
    then have "externalized (net B) v"
      using that(2) externalized_step[OF core[of B], of v] A(3) by (cases "B = A") auto
    then show ?thesis using supported_step[OF core net_inv_parts(4)[OF inv that(1)]] by blast
  qed
  moreover have "slot_inv (drvs n) (net' n)" if "n \<in> H" for n
    using net_inv_parts(1)[OF inv that] facts(1) A(3) by simp
  moreover have "slot_rel (net n) (net' n)" for n
    using facts(2) A(3) by (simp add: slot_rel_def)
  moreover have "net' n = net n" if "n \<notin> H" for n using that A(1,3) by auto
  moreover have "drivers_ok H drvs" using inv by (simp add: net_inv_def)
  ultimately show ?thesis unfolding net_inv_def net_rel_def by blast
qed

interpretation net_runs: run_system "net_step H drvs" "net_inv H drvs" "net_rel H" for H drvs
proof
  show "net_inv H drvs s'" if "net_inv H drvs s" "net_step H drvs s s'" for s s'
    using net_step_inv[OF that] by simp
  show "net_rel H s s'" if "net_inv H drvs s" "net_step H drvs s s'" for s s'
    using net_step_inv[OF that] by simp
  show "net_rel H s s" for s by (simp add: net_rel_def slot_rel_def)
  show "net_rel H s s''" if "net_rel H s s'" "net_rel H s' s''" for s s' s''
    using that slot_rel_trans unfolding net_rel_def by metis
qed

lemma net_inv_start: "drivers_ok H drvs \<Longrightarrow> net_inv H drvs (net_start drvs i)"
proof -
  have "mLatestEnvelopes (net_start drvs i n) = []" "mPhase (net_start drvs i n) = SCP_PHASE_PREPARE" for n
    by (simp_all add: net_start_def newSlot_def)
  then show "drivers_ok H drvs \<Longrightarrow> net_inv H drvs (net_start drvs i)"
    using slot_inv_new by (simp add: net_inv_def externalized_def net_start_def)
qed

lemma told_externalized:
  assumes "slot_inv drv s" "ValueExternalized v \<in> set (mDriverCalls s)"
  shows "externalized s v"
proof -
  have "ValueExternalized v \<in> set (filter isExternalized (mDriverCalls s))" using assms(2) by simp
  then show ?thesis
    unfolding assms(1)[unfolded slot_inv_def logged_def, THEN conjunct2, THEN conjunct2, THEN conjunct2, THEN conjunct1]
    by (cases "mCommit s") (auto simp: externalized_def split: if_splits)
qed

lemma supported_agree:
  assumes "quorums_intersect H drvs" "A \<in> H" "B \<in> H" "supported H drvs net A v" "supported H drvs net B w"
  shows "v = w"
proof -
  obtain Q R where Q: "sat Q (localQSet (drvs A))" "sustains H drvs Q" "\<And>n. n \<in> Q \<inter> H \<Longrightarrow> committed_to (net n) v"
    and R: "sat R (localQSet (drvs B))" "sustains H drvs R" "\<And>n. n \<in> R \<inter> H \<Longrightarrow> committed_to (net n) w"
    using assms(4,5) unfolding supported_def by blast
  then obtain n where "n \<in> Q \<inter> R \<inter> H" using assms(1-3) unfolding quorums_intersect_def by blast
  then have "committed_to (net n) v" "committed_to (net n) w" using Q(3) R(3) by blast+
  then show ?thesis by (auto simp: committed_to_def)
qed

end
