(* ===== verification/Demo.thy ===== *)
theory Demo
  imports Network
begin

text \<open>
  A network of two nodes on which the witnesses of the properties run the definitions.
\<close>

section \<open>A small network\<close>

text \<open>Two nodes that both require node 1; node 2 learns the value from it.\<close>

definition demoQSet :: SCPQuorumSet where
  "demoQSet = SCPQuorumSet 1 [1] []"

definition demoDriver :: "node_id \<Rightarrow> SCPDriver" where
  "demoDriver n =
     \<lparr> localNodeID = n, isValidator = True, localQSet = demoQSet, localQSetHash = 1,
       getQSet = (\<lambda>_. Some demoQSet), validateValue = (\<lambda>_ _ _. kFullyValidatedValue),
       extractValidValue = (\<lambda>_ v. Some v),
       combineCandidates = (\<lambda>_ vs. case vs of [] \<Rightarrow> None | v # _ \<Rightarrow> Some v),
       computeHashNode = (\<lambda>_ _ _ _ _. 1), computeValueHash = (\<lambda>_ _ _ _. 1), signEnvelope = (\<lambda>_. []) \<rparr>"

definition demo1 :: "scp_error + bool \<times> Slot" where
  "demo1 = slotBumpState (demoDriver 1) [7] False (newSlot (demoDriver 1) 1)"

definition demoEnvelope :: SCPEnvelope where
  "demoEnvelope =
     \<lparr> stmt = \<lparr> nodeID = 1, slotIndex = 1, pledges = EXTERNALIZE (SCPBallot 1 [7]) 1 1 \<rparr>, signature = [] \<rparr>"

definition demo2 :: "scp_error + EnvelopeState \<times> Slot" where
  "demo2 = processBallotEnvelope (demoDriver 2) demoEnvelope False (newSlot (demoDriver 2) 1)"

abbreviation demoSlot1 :: Slot where
  "demoSlot1 \<equiv> snd (projr demo1)"

abbreviation demoSlot2 :: Slot where
  "demoSlot2 \<equiv> snd (projr demo2)"

lemma projr_pair: "\<not> isl x \<Longrightarrow> x = Inr (fst (projr x), snd (projr x))"
  by (cases x) simp_all

lemma demo1_facts:
  "\<not> isl demo1" "EmitEnvelope demoEnvelope \<in> set (mDriverCalls demoSlot1)"
  "ValueExternalized (bvalue (the (mCommit demoSlot1))) \<in> set (mDriverCalls demoSlot1)" "mPhase demoSlot1 = SCP_PHASE_EXTERNALIZE"
  by code_simp+

lemma demo2_facts:
  "\<not> isl demo2" "ValueExternalized (bvalue (the (mCommit demoSlot2))) \<in> set (mDriverCalls demoSlot2)"
  by code_simp+

lemma demo1_step: "slot_step (demoDriver 1) E (newSlot (demoDriver 1) 1) demoSlot1"
proof (rule slot_step.bump)
  show "slotBumpState (demoDriver 1) [7] False (newSlot (demoDriver 1) 1) = Inr (fst (projr demo1), demoSlot1)"
    using projr_pair[OF demo1_facts(1)] unfolding demo1_def .
qed

lemma demo2_received:
  "slotProcessEnvelope (demoDriver 2) demoEnvelope False (newSlot (demoDriver 2) 1) = Some (Inr (fst (projr demo2), demoSlot2))"
proof -
  have "pledges (stmt demoEnvelope) = EXTERNALIZE (SCPBallot 1 [7]) 1 1" "slotIndex (stmt demoEnvelope) = 1"
    "mSlotIndex (newSlot (demoDriver 2) 1) = 1"
    by (simp_all add: demoEnvelope_def newSlot_def)
  then show ?thesis
    using projr_pair[OF demo2_facts(1)] by (simp add: slotProcessEnvelope_def flip: demo2_def)
qed

lemma demo2_step: "E demoEnvelope \<Longrightarrow> slot_step (demoDriver 2) E (newSlot (demoDriver 2) 1) demoSlot2"
  by (rule slot_step.receive[OF _ demo2_received])

abbreviation demoNet :: "node_id \<Rightarrow> Slot" where
  "demoNet \<equiv> (net_start demoDriver 1)(1 := demoSlot1, 2 := demoSlot2)"

lemma two_steps: "R a b \<Longrightarrow> R b c \<Longrightarrow> R\<^sup>*\<^sup>* a c"
  by simp

lemma demo_net_steps:
  "net_step {1, 2} demoDriver (net_start demoDriver 1) ((net_start demoDriver 1)(1 := demoSlot1))"
  "net_step {1, 2} demoDriver ((net_start demoDriver 1)(1 := demoSlot1)) demoNet"
proof -
  show "net_step {1, 2} demoDriver (net_start demoDriver 1) ((net_start demoDriver 1)(1 := demoSlot1))"
    by (rule net_step.node) (simp_all add: net_start_def demo1_step)
  have "authentic {1, 2} ((net_start demoDriver 1)(1 := demoSlot1)) demoEnvelope"
    using demo1_facts(2) by (simp add: authentic_def demoEnvelope_def)
  then show "net_step {1, 2} demoDriver ((net_start demoDriver 1)(1 := demoSlot1)) demoNet"
    by (intro net_step.node) (simp_all add: net_start_def demo2_step)
qed

lemma demo_run: "(net_step {1, 2} demoDriver)\<^sup>*\<^sup>* (net_start demoDriver 1) demoNet"
  by (rule two_steps[where R = "net_step {1, 2} demoDriver", OF demo_net_steps])

lemma demo_drivers: "drivers_ok {1, 2} demoDriver"
  by (simp add: drivers_ok_def demoDriver_def)

lemma demo_intersect: "quorums_intersect {1, 2} demoDriver"
proof -
  have "sat Q demoQSet \<longleftrightarrow> 1 \<in> Q" for Q by (simp add: demoQSet_def)
  then show ?thesis by (auto simp: quorums_intersect_def demoDriver_def)
qed

lemma demo_reachable: "reachable (demoDriver 1) 1 demoSlot1" "reachable drv i (newSlot drv i)"
  using demo1_step by (simp_all add: reachable_def r_into_rtranclp)

lemma demoEnvelope_facts:
  "slotIndex (stmt demoEnvelope) = mSlotIndex (newSlot drv 1)" "pledgesType (pledges (stmt demoEnvelope)) < 3"
  "nodeID (stmt demoEnvelope) = 1"
  by (simp_all add: demoEnvelope_def newSlot_def pledgesType_def)

end
