(* ===== verification/BallotSpec.thy ===== *)
theory BallotSpec
  imports Demo "HOL-Library.Option_ord" "HOL-Library.Product_Lexorder"
begin

text \<open>
  What single operations of the ballot protocol compute: the order of statements, the interval search,
  the choice of the counter to jump to, and restoring a slot from its last statement.
\<close>

section \<open>The order of statements\<close>

text \<open>
  The statement order is the lexicographic order of a key: the type, the ballot, the prepared ballots and
  the counter of the high ballot.
\<close>

definition statementKey :: "SCPPledges \<Rightarrow> nat \<times> SCPBallot option \<times> SCPBallot option \<times> SCPBallot option \<times> uint32" where
  "statementKey pl =
     (case pl of
        PREPARE _ b p p' _ nH \<Rightarrow> (0, Some b, p, p', nH)
      | CONFIRM b nP _ nH _ \<Rightarrow> (1, Some b, Some (SCPBallot nP []), None, nH)
      | EXTERNALIZE _ _ _ \<Rightarrow> (2, None, None, None, 0)
      | NOMINATE _ _ _ \<Rightarrow> (3, None, None, None, 0))"

lemma compareBallotPtrs_less: "compareBallotPtrs p q < 0 \<longleftrightarrow> p < q"
  by (cases p; cases q) (simp_all add: compareBallotPtrs_def compareBallots_order)

text \<open>
  Property C26. One statement is newer than another exactly when its key is greater, in the lexicographic
  order of type, ballot, prepared ballot (the counter, in a CONFIRM statement), second prepared ballot and
  high counter. So the statements of a node that replace each other are linearly ordered up to their keys.
\<close>

theorem isNewerStatement_lexicographic:
  "isNewerStatement2 old st \<longleftrightarrow> statementKey (pledges old) < statementKey (pledges st)"
proof (cases "pledgesType (pledges old) = pledgesType (pledges st)")
  case True
  have nP: "SCPBallot a [] < SCPBallot b [] \<longleftrightarrow> a < b" "SCPBallot a [] \<le> SCPBallot b [] \<longleftrightarrow> a \<le> b" for a b
    by (auto simp: ballot_less_iff ballot_le_iff)
  from True show ?thesis
    unfolding isNewerStatement2_def
    by (cases "pledges old"; cases "pledges st")
      (auto simp: pledgesType_def statementKey_def isNewer_prepare_iff isNewer_confirm_iff compareBallotPtrs_less nP
        less_prod_def simp del: isNewerPledges.simps(2,3))
next
  case False
  then show ?thesis
    unfolding isNewerStatement2_def
    by (cases "pledges old"; cases "pledges st") (simp_all add: pledgesType_def statementKey_def less_prod_def)
qed

section \<open>Intervals\<close>

lemma extend_down:
  assumes "lo \<noteq> 0" "\<forall>b \<in> set xs. b \<le> hi \<and> b \<noteq> 0"
  shows "extendInterval P (lo, hi) xs = (last (lo # takeWhile (\<lambda>b. P (b, hi)) xs), hi)"
  using assms by (induction xs arbitrary: lo) auto

lemma extend_start:
  assumes "sorted_wrt (>) xs" "0 \<notin> set xs"
  shows "extendInterval P (0, 0) xs =
    (case dropWhile (\<lambda>b. \<not> P (b, b)) xs of
       [] \<Rightarrow> (0, 0)
     | hi # ys \<Rightarrow> (last (hi # takeWhile (\<lambda>b. P (b, hi)) ys), hi))"
  using assms
proof (induction xs)
  case (Cons b xs)
  have "\<forall>x \<in> set xs. x \<le> b \<and> x \<noteq> 0" using Cons.prems by auto
  then show ?case using Cons by (auto simp: extend_down)
qed simp

definition lowest_reach :: "(uint32 \<Rightarrow> bool) \<Rightarrow> uint32 list \<Rightarrow> uint32 \<Rightarrow> bool" where
  "lowest_reach Q xs lo \<longleftrightarrow>
     lo \<in> set xs \<and> (\<forall>b \<in> set xs. lo \<le> b \<longrightarrow> Q b) \<and>
     (\<forall>b \<in> set xs. b < lo \<longrightarrow> (\<exists>b' \<in> set xs. b \<le> b' \<and> b' < lo \<and> \<not> Q b'))"

lemma last_takeWhile:
  assumes "sorted_wrt (>) (hi # ys)" "Q hi"
  shows "lowest_reach Q (hi # ys) (last (hi # takeWhile Q ys))"
  using assms
proof (induction ys arbitrary: hi)
  case (Cons y ys)
  have less: "\<forall>b \<in> set (y # ys). b < hi" "\<forall>b \<in> set (y # ys). b \<le> y" using Cons.prems(1) by auto
  show ?case
  proof (cases "Q y")
    case False
    have "\<exists>b' \<in> set (hi # y # ys). b \<le> b' \<and> b' < hi \<and> \<not> Q b'" if "b \<in> set (hi # y # ys)" "b < hi" for b
      by (rule bexI[of _ y]) (use that less False in auto)
    moreover have "Q b" if "b \<in> set (hi # y # ys)" "hi \<le> b" for b
      using that less(1) Cons.prems(2) by fastforce
    ultimately show ?thesis using False by (simp add: lowest_reach_def)
  next
    case True
    define lo where "lo = last (y # takeWhile Q ys)"
    have IH: "lowest_reach Q (y # ys) lo" unfolding lo_def using Cons.IH[of y] Cons.prems(1) True by simp
    then have lo: "lo < hi" using less(1) unfolding lowest_reach_def by blast
    have "last (hi # takeWhile Q (y # ys)) = lo" using True by (simp add: lo_def)
    moreover have "lowest_reach Q (hi # y # ys) lo"
      using IH lo Cons.prems(2) unfolding lowest_reach_def by auto
    ultimately show ?thesis by simp
  qed
qed (simp add: lowest_reach_def)

lemma interval_found:
  fixes bs :: "uint32 list"
  assumes eq: "rev bs = takeWhile (\<lambda>b. \<not> P (b, b)) (rev bs) @ x # ys" and srt: "sorted_wrt (>) (rev bs)"
    and x: "P (x, x)" and lo: "lo = last (x # takeWhile (\<lambda>b. P (b, x)) ys)"
  shows "x \<in> set bs \<and> P (x, x) \<and> (\<forall>b \<in> set bs. x < b \<longrightarrow> \<not> P (b, b)) \<and> lo \<in> set bs \<and> lo \<le> x \<and>
    (\<forall>b \<in> set bs. lo \<le> b \<and> b \<le> x \<longrightarrow> P (b, x)) \<and>
    (\<forall>b \<in> set bs. b < lo \<longrightarrow> (\<exists>b' \<in> set bs. b \<le> b' \<and> b' < lo \<and> \<not> P (b', x)))"
proof -
  obtain pre where pre: "rev bs = pre @ x # ys" "\<forall>b \<in> set pre. \<not> P (b, b)"
    by (rule that[OF eq]) (use set_takeWhileD in fast)
  have bs: "set bs = set pre \<union> set (x # ys)" using arg_cong[OF pre(1), of set] by simp
  have desc: "sorted_wrt (>) (x # ys)" "\<forall>b \<in> set pre. \<forall>y \<in> set (x # ys). y < b"
    using srt unfolding pre(1) by (auto simp: sorted_wrt_append)
  have below: "\<forall>y \<in> set (x # ys). y \<le> x" using desc(1) by auto
  have low: "lowest_reach (\<lambda>b. P (b, x)) (x # ys) lo" unfolding lo by (rule last_takeWhile[OF desc(1)]) (rule x)
  then have lo_in: "lo \<in> set (x # ys)" by (simp only: lowest_reach_def)
  have tail: "b \<in> set (x # ys)" if "b \<in> set bs" "b \<le> x" for b
  proof (rule ccontr)
    assume "b \<notin> set (x # ys)"
    then have "b \<in> set pre" using that(1) bs by blast
    then have "x < b" using desc(2) by simp
    with that(2) show False by simp
  qed
  have "\<not> P (b, b)" if "b \<in> set bs" "x < b" for b
  proof -
    have "b \<notin> set (x # ys)" using below that(2) leD by blast
    then show ?thesis using bs that(1) pre(2) by blast
  qed
  moreover have "P (b, x)" if "b \<in> set bs" "lo \<le> b" "b \<le> x" for b
    using tail[OF that(1,3)] low that(2) unfolding lowest_reach_def by blast
  moreover have "\<exists>b' \<in> set bs. b \<le> b' \<and> b' < lo \<and> \<not> P (b', x)" if "b \<in> set bs" "b < lo" for b
  proof -
    have "lo \<le> x" using below lo_in by blast
    then have "b \<in> set (x # ys)" using tail[OF that(1)] that(2) by simp
    then show ?thesis using low that(2) bs unfolding lowest_reach_def by blast
  qed
  moreover have "x \<in> set bs" "lo \<in> set bs" "lo \<le> x" using lo_in below bs by auto
  ultimately show ?thesis using x by blast
qed

text \<open>
  Property C25. \<^verbatim>\<open>findExtendedInterval\<close>, on an ordered set of boundaries without 0: if no boundary satisfies
  the predicate alone, there is no interval. Otherwise the upper end is the highest boundary that does,
  the predicate holds from every boundary in the interval up to the upper end, and the lower end cannot
  be moved to the next boundary.
\<close>

theorem findExtendedInterval_correct:
  assumes "sorted_wrt (<) bs" "0 \<notin> set bs" "findExtendedInterval (0, 0) bs P = (lo, hi)"
  shows "if lo = 0 then hi = 0 \<and> (\<forall>b \<in> set bs. \<not> P (b, b))
    else hi \<in> set bs \<and> P (hi, hi) \<and> (\<forall>b \<in> set bs. hi < b \<longrightarrow> \<not> P (b, b)) \<and>
      lo \<in> set bs \<and> lo \<le> hi \<and> (\<forall>b \<in> set bs. lo \<le> b \<and> b \<le> hi \<longrightarrow> P (b, hi)) \<and>
      (\<forall>b \<in> set bs. b < lo \<longrightarrow> (\<exists>b' \<in> set bs. b \<le> b' \<and> b' < lo \<and> \<not> P (b', hi)))"
proof -
  have srt: "sorted_wrt (>) (rev bs)" using assms(1) by (simp add: sorted_wrt_rev)
  have res: "(case dropWhile (\<lambda>b. \<not> P (b, b)) (rev bs) of [] \<Rightarrow> (0, 0)
      | hi # ys \<Rightarrow> (last (hi # takeWhile (\<lambda>b. P (b, hi)) ys), hi)) = (lo, hi)"
    using assms(3) extend_start[OF srt] assms(2) unfolding findExtendedInterval_def by simp
  have split: "rev bs = takeWhile (\<lambda>b. \<not> P (b, b)) (rev bs) @ dropWhile (\<lambda>b. \<not> P (b, b)) (rev bs)"
    by (simp only: takeWhile_dropWhile_id)
  show ?thesis
  proof (cases "dropWhile (\<lambda>b. \<not> P (b, b)) (rev bs)")
    case Nil
    then have "\<forall>b \<in> set bs. \<not> P (b, b)" by (simp only: dropWhile_eq_Nil_conv set_rev)
    moreover have "lo = 0" "hi = 0" using res unfolding Nil by simp_all
    ultimately show ?thesis by simp
  next
    case (Cons x ys)
    then have x: "P (x, x)" unfolding dropWhile_eq_Cons_conv by blast
    have hi: "hi = x" "lo = last (x # takeWhile (\<lambda>b. P (b, x)) ys)"
      using res[unfolded Cons list.case prod.inject] by (blast intro: sym)+
    from interval_found[OF split[unfolded Cons] srt x hi(2)] show ?thesis
      using assms(2) hi(1) by auto
  qed
qed

theorem findExtendedInterval_correct_witness:
  "findExtendedInterval (0, 0) [1, 3, 5, 9] (\<lambda>(a, b). 2 \<le> a \<and> b \<le> 6) = (3, 5) \<and>
   (3 :: uint32) \<le> 5 \<and> (5 :: uint32) \<in> set [1, 3, 5, 9]"
proof -
  have res: "findExtendedInterval (0, 0) [1, 3, 5, 9] (\<lambda>(a, b). 2 \<le> a \<and> b \<le> 6) = (3, 5)" by code_simp
  have "sorted_wrt (<) [1, 3, 5, 9 :: uint32]" "0 \<notin> set [1, 3, 5, 9 :: uint32]" by simp_all
  from findExtendedInterval_correct[OF this res] res show ?thesis by simp
qed

section \<open>The counter to jump to\<close>

lemma countDown_none: "\<forall>x \<in> set xs. \<not> P x \<Longrightarrow> countDown P l xs = Some l"
  by (induction xs) simp_all

lemma vBlocking_empty: "\<not> isVBlockingInternal q []"
proof (induction q)
  case (SCPQuorumSet t vs qs)
  then show ?case using countDown_none[of qs "\<lambda>q. isVBlockingInternal q []"] by (simp add: countDown_none Let_def)
qed

lemma set_counters:
  "set (fold (\<lambda>(n, e) cs. let c = statementBallotCounter (stmt e) in if c > l then set_insert c cs else cs) m cs) =
     set cs \<union> {c. l < c \<and> (\<exists>(n, e) \<in> set m. c = statementBallotCounter (stmt e))}"
proof (induction m arbitrary: cs)
  case (Cons x m)
  obtain n e where "x = (n, e)" by (cases x)
  then show ?case using Cons.IH by (cases "l < statementBallotCounter (stmt e)") (auto simp: Let_def)
qed simp

lemma sorted_counters:
  "sorted_wrt (<) cs \<Longrightarrow>
   sorted_wrt (<) (fold (\<lambda>(n, e) cs. let c = statementBallotCounter (stmt e) in if c > l then set_insert c cs else cs) m cs)"
proof (induction m arbitrary: cs)
  case (Cons x m)
  obtain n e where "x = (n, e)" by (cases x)
  then show ?case
    using Cons.IH[OF Cons.prems] Cons.IH[OF sorted_set_insert[OF Cons.prems]]
    by (cases "l < statementBallotCounter (stmt e)") (simp_all add: Let_def)
qed simp

lemma find_sorted:
  assumes "sorted_wrt (<) xs" "find P xs = Some (n :: 'a::linorder)"
  shows "n \<in> set xs \<and> P n \<and> (\<forall>x \<in> set xs. x < n \<longrightarrow> \<not> P x)"
  using assms
proof (induction xs)
  case (Cons y ys)
  then show ?case by (cases "P y") auto
qed simp

text \<open>Who is ahead of a counter depends only on the counters above it.\<close>

lemma ahead_same:
  assumes "\<forall>(n, e) \<in> set m. statementBallotCounter (stmt e) > k' \<longrightarrow> statementBallotCounter (stmt e) > k" "k' \<le> k"
  shows "hasVBlockingSubsetStrictlyAheadOf drv m k = hasVBlockingSubsetStrictlyAheadOf drv m k'"
proof -
  have "filter (\<lambda>(n, e). k < statementBallotCounter (stmt e)) m = filter (\<lambda>(n, e). k' < statementBallotCounter (stmt e)) m"
    using assms by (intro filter_cong) auto
  then show ?thesis
    by (simp add: hasVBlockingSubsetStrictlyAheadOf_def isVBlockingFilter_def filterNodes_def)
qed

lemma ahead_none:
  assumes "\<forall>(n, e) \<in> set m. statementBallotCounter (stmt e) \<le> k"
  shows "\<not> hasVBlockingSubsetStrictlyAheadOf drv m k"
proof -
  have "filter (\<lambda>(n, e). k < statementBallotCounter (stmt e)) m = []"
    using assms by (auto simp: filter_empty_conv)
  then show ?thesis
    using vBlocking_empty
    by (simp add: hasVBlockingSubsetStrictlyAheadOf_def isVBlockingFilter_def filterNodes_def isVBlocking_def)
qed

lemma counter_list:
  "set (allCounters m l) = {c. l < c \<and> (\<exists>(n, e) \<in> set m. c = statementBallotCounter (stmt e))}"
  "sorted_wrt (<) (allCounters m l)"
  unfolding allCounters_def by (simp only: set_counters list.set(1) Un_empty_left) (rule sorted_counters, simp)

lemma counterI: "(n, e) \<in> set m \<Longrightarrow> l < statementBallotCounter (stmt e) \<Longrightarrow> statementBallotCounter (stmt e) \<in> set (allCounters m l)"
  by (auto simp: counter_list(1))

lemma counter_found:
  assumes ahead: "hasVBlockingSubsetStrictlyAheadOf drv m l"
  shows "\<exists>c \<in> set (allCounters m l). \<not> hasVBlockingSubsetStrictlyAheadOf drv m c"
proof (cases "allCounters m l = []")
  case True
  then have "set (allCounters m l) = {}" by simp
  then have "statementBallotCounter (stmt e) \<le> l" if "(n, e) \<in> set m" for n e
    using counterI[OF that, of l] by (metis empty_iff leI)
  then have "\<forall>(n, e) \<in> set m. statementBallotCounter (stmt e) \<le> l" by blast
  then show ?thesis using ahead ahead_none by blast
next
  case False
  define M where "M = Max (set (allCounters m l))"
  have M: "M \<in> set (allCounters m l)" "\<And>c. c \<in> set (allCounters m l) \<Longrightarrow> c \<le> M"
    unfolding M_def by (rule Max_in, simp, simp add: False) (rule Max_ge, simp)
  have lM: "l < M" using M(1) by (rule allCounters_gt)
  have "statementBallotCounter (stmt e) \<le> M" if "(n, e) \<in> set m" for n e
  proof (cases "l < statementBallotCounter (stmt e)")
    case True
    from M(2)[OF counterI[OF that this]] show ?thesis .
  next
    case False
    then have "statementBallotCounter (stmt e) \<le> l" by (rule leI)
    also have "l \<le> M" using lM by (rule less_imp_le)
    finally show ?thesis .
  qed
  then have "\<forall>(n, e) \<in> set m. statementBallotCounter (stmt e) \<le> M" by blast
  from ahead_none[OF this, of drv] M(1) show ?thesis by blast
qed

lemma lowest_counter:
  assumes ahead: "hasVBlockingSubsetStrictlyAheadOf drv m l"
  obtains n where "find (\<lambda>n. \<not> hasVBlockingSubsetStrictlyAheadOf drv m n) (allCounters m l) = Some n"
    "l < n" "\<not> hasVBlockingSubsetStrictlyAheadOf drv m n"
    "\<And>k. l \<le> k \<Longrightarrow> k < n \<Longrightarrow> hasVBlockingSubsetStrictlyAheadOf drv m k"
proof -
  let ?B = "hasVBlockingSubsetStrictlyAheadOf drv m" and ?cs = "allCounters m l"
  obtain n where n: "find (\<lambda>n. \<not> ?B n) ?cs = Some n"
    using counter_found[OF ahead] find_None_iff[of "\<lambda>n. \<not> ?B n" ?cs] by (cases "find (\<lambda>n. \<not> ?B n) ?cs") blast+
  note first = find_sorted[OF counter_list(2) n]
  have "?B k" if k: "l \<le> k" "k < n" for k
  proof -
    define A where "A = {c \<in> insert l (set ?cs). c \<le> k}"
    have fin: "finite A" "l \<in> A" using k(1) by (simp_all add: A_def)
    define M where "M = Max A"
    have M: "M \<in> A" "\<And>c. c \<in> A \<Longrightarrow> c \<le> M" unfolding M_def using Max_in[OF fin(1)] Max_ge[OF fin(1)] fin(2) by blast+
    have Mk: "M \<le> k" using M(1) by (simp add: A_def)
    have "M = l \<or> M \<in> set ?cs" using M(1) by (simp add: A_def)
    moreover have "M < n" using Mk k(2) by (rule le_less_trans)
    ultimately have B: "?B M" using first ahead by blast
    have "k < statementBallotCounter (stmt e)" if e: "(i, e) \<in> set m" "M < statementBallotCounter (stmt e)" for i e
    proof (rule ccontr)
      assume "\<not> k < statementBallotCounter (stmt e)"
      then have le: "statementBallotCounter (stmt e) \<le> k" by (rule leI)
      have "l < statementBallotCounter (stmt e)" using M(2)[OF fin(2)] e(2) by (rule le_less_trans)
      from counterI[OF e(1) this] have "statementBallotCounter (stmt e) \<in> set ?cs" .
      then have "statementBallotCounter (stmt e) \<in> A" using le by (simp add: A_def)
      from M(2)[OF this] e(2) show False by (rule leD[THEN notE])
    qed
    then have "\<forall>(i, e) \<in> set m. statementBallotCounter (stmt e) > M \<longrightarrow> statementBallotCounter (stmt e) > k" by blast
    from ahead_same[OF this Mk, of drv] B show ?thesis by blast
  qed
  moreover have "l < n" using first allCounters_gt by blast
  ultimately show thesis using that n first by blast
qed

text \<open>
  The ballot a slot moves to at the counter \<open>n\<close>: the value is the composite of the confirmed candidates or,
  without one, the value of the current ballot; a value that the slot must keep overrides both. There is no
  such ballot without a value, or when its value is not the one the slot has voted to commit.
\<close>

definition bumpValue :: "Slot \<Rightarrow> val" where
  "bumpValue s =
     (case mLatestCompositeCandidate (mNomination s) of
        Some (x # xs) \<Rightarrow> x # xs
      | _ \<Rightarrow> (case mCurrentBallot s of Some b \<Rightarrow> bvalue b | None \<Rightarrow> []))"

definition bumpTarget :: "uint32 \<Rightarrow> Slot \<Rightarrow> SCPBallot option" where
  "bumpTarget n s =
     (let b = SCPBallot n (case mValueOverride s of Some z \<Rightarrow> z | None \<Rightarrow> bumpValue s) in
      if bumpValue s = [] \<or> (\<exists>c. mCommit s = Some c \<and> bvalue c \<noteq> bvalue b) then None else Some b)"

lemma abandonBallot_value:
  "n \<noteq> 0 \<Longrightarrow> abandonBallot drv proc n s =
     (if bumpValue s = [] then Inr (False, s) else bumpStateTo drv proc (bumpValue s) n s)"
  by (auto simp: abandonBallot_def bumpValue_def Let_def split: option.splits list.splits)

lemma abandonBallot_target:
  assumes inv: "binv s" and ph: "mPhase s \<noteq> SCP_PHASE_EXTERNALIZE" and n: "ballotCounter (mCurrentBallot s) < n"
  shows "case bumpTarget n s of
      None \<Rightarrow> abandonBallot drv proc n s = Inr (False, s)
    | Some b \<Rightarrow> \<exists>s1. counter b = n \<and> pre_inv s1 \<and> bump_rel b s s1 \<and> abandonBallot drv proc n s =
        bindE (emitCurrentStateStatement drv proc s1) (\<lambda>_ s. Inr (True, checkHeardFromQuorum drv s))"
proof (cases "bumpValue s = []")
  case True
  have "n \<noteq> 0" using n by auto
  then show ?thesis using True by (simp add: bumpTarget_def abandonBallot_value)
next
  case False
  define b where "b = SCPBallot n (case mValueOverride s of Some z \<Rightarrow> z | None \<Rightarrow> bumpValue s)"
  have n0: "n \<noteq> 0" using n by auto
  have cnt: "counter b = n" by (simp add: b_def)
  have "bumpStateTo drv proc (bumpValue s) n s =
      bindE (updateCurrentValue b s) (\<lambda>updated s.
          if updated then
            bindE (emitCurrentStateStatement drv proc s) (\<lambda>_ s. Inr (True, checkHeardFromQuorum drv s))
          else Inr (False, s))"
    using ph by (cases "mPhase s") (simp_all add: bumpStateTo_def b_def Let_def)
  then have eq: "abandonBallot drv proc n s =
      bindE (updateCurrentValue b s) (\<lambda>updated s.
          if updated then
            bindE (emitCurrentStateStatement drv proc s) (\<lambda>_ s. Inr (True, checkHeardFromQuorum drv s))
          else Inr (False, s))"
    using False n0 by (simp only: abandonBallot_value if_False not_False_eq_True)
  have "counter b' < counter b" if "mCurrentBallot s = Some b'" for b'
    using n that by (simp add: ballotCounter_def cnt)
  note upd = updateCurrentValue_ok[OF binv_pre[OF inv] ph this]
  have tgt: "bumpTarget n s = (if \<exists>c. mCommit s = Some c \<and> bvalue c \<noteq> bvalue b then None else Some b)"
    using False by (simp add: bumpTarget_def b_def Let_def)
  show ?thesis
  proof (cases "\<exists>c. mCommit s = Some c \<and> bvalue c \<noteq> bvalue b")
    case True
    then show ?thesis using upd by (simp only: tgt eq if_True option.case bindE_simps if_False)
  next
    case ok: False
    then obtain s1 where "updateCurrentValue b s = Inr (True, s1)" "pre_inv s1" "bump_rel b s s1"
      using upd n0 cnt by (simp only: if_False) blast
    then show ?thesis using ok cnt by (auto simp only: tgt eq if_True option.case bindE_simps if_False)
  qed
qed

lemma attemptBump_to:
  assumes "mPhase s \<noteq> SCP_PHASE_EXTERNALIZE"
    and "hasVBlockingSubsetStrictlyAheadOf drv (mLatestEnvelopes s) (ballotCounter (mCurrentBallot s))"
  obtains n where "attemptBump drv proc s = abandonBallot drv proc n s" "ballotCounter (mCurrentBallot s) < n"
    "\<not> hasVBlockingSubsetStrictlyAheadOf drv (mLatestEnvelopes s) n"
    "\<And>k. ballotCounter (mCurrentBallot s) \<le> k \<Longrightarrow> k < n \<Longrightarrow> hasVBlockingSubsetStrictlyAheadOf drv (mLatestEnvelopes s) k"
proof (rule lowest_counter[OF assms(2)])
  fix n assume n: "find (\<lambda>n. \<not> hasVBlockingSubsetStrictlyAheadOf drv (mLatestEnvelopes s) n)
      (allCounters (mLatestEnvelopes s) (ballotCounter (mCurrentBallot s))) = Some n"
    "ballotCounter (mCurrentBallot s) < n" "\<not> hasVBlockingSubsetStrictlyAheadOf drv (mLatestEnvelopes s) n"
    "\<And>k. ballotCounter (mCurrentBallot s) \<le> k \<Longrightarrow> k < n \<Longrightarrow> hasVBlockingSubsetStrictlyAheadOf drv (mLatestEnvelopes s) k"
  have "mPhase s = SCP_PHASE_PREPARE \<or> mPhase s = SCP_PHASE_CONFIRM" using assms(1) by (cases "mPhase s") simp_all
  then have "attemptBump drv proc s = abandonBallot drv proc n s"
    unfolding attemptBump_def Let_def using assms(2) n(1) by (simp only: if_True simp_thms option.case not_True_eq_False if_False)
  then show thesis using that n(2-4) by blast
qed

text \<open>The function that processes a node's own statements while it processes an envelope.\<close>

definition nestedProc :: "SCPDriver \<Rightarrow> self_proc" where
  "nestedProc drv e = processEnvelopeN (MAX_ADVANCE_SLOT_RECURSION - 1) drv e True"

lemma nestedProc_ok: "proc_ok drv (nestedProc drv) 1"
  using processEnvelopeN_proc_ok[of 1 "MAX_ADVANCE_SLOT_RECURSION - 1" drv]
  by (simp add: nestedProc_def[abs_def] MAX_ADVANCE_SLOT_RECURSION_def)

lemma bumped_reaches:
  assumes s1: "pre_inv s1" "bump_rel b s s1" "mCurrentMessageLevel s = 1"
    and res: "bindE (emitCurrentStateStatement drv (nestedProc drv) s1) (\<lambda>_ s. Inr (True, checkHeardFromQuorum drv s)) = Inr (r, s')"
  shows "r \<and> (mPhase s' = mPhase s \<longrightarrow> counter b \<le> ballotCounter (mCurrentBallot s'))"
proof -
  have "mCurrentMessageLevel s1 = 1" using s1(2,3) frame_level[of s s1] by (simp add: bump_rel_def)
  then have g: "good drv s1 (emitCurrentStateStatement drv (nestedProc drv) s1)"
    using emit_good[OF s1(1), of drv "nestedProc drv"] nestedProc_ok by simp
  obtain a s2 where s2: "emitCurrentStateStatement drv (nestedProc drv) s1 = Inr (a, s2)" "r" "s' = checkHeardFromQuorum drv s2"
    using res by (cases "emitCurrentStateStatement drv (nestedProc drv) s1") auto
  have "core_step s1 s2" using g s2(1) by (simp add: evolves_unfold)
  moreover have "core_step s2 s'" using quiet_evolves[OF quiet_checkHeardFromQuorum[of s2 drv]] s2(3) by (simp add: evolves_unfold)
  ultimately have "core_step s1 s'" by (rule core_step_trans)
  then have "counter b \<le> ballotCounter (mCurrentBallot s')" if "mPhase s' = mPhase s"
    using that s1(2) by (cases "mCurrentBallot s'") (auto simp: core_step_def bump_rel_def ballotCounter_def ballot_le_iff)
  then show ?thesis using s2(2) by blast
qed

text \<open>
  Property C24. \<^verbatim>\<open>attemptBump\<close> (step 9 of the protocol), as \<^verbatim>\<open>advanceSlot\<close> calls it: when a blocking set is strictly
  ahead of the local counter, the counter to move to is the lowest one at which no blocking set is ahead any
  more. Every counter in between has a blocking set ahead of it, whether or not some node has sent it. If
  there is a ballot to move to, the slot makes it its current ballot at that counter, keeps its phase, its
  prepared ballots and the statements it holds, drops \<^verbatim>\<open>h\<close> and \<^verbatim>\<open>c\<close> if their value differs, and emits its new
  state; afterwards it is at that counter or beyond, unless it has moved to a later phase. Otherwise it stays
  as it is.
\<close>

theorem attemptBump_lowest:
  assumes "binv s" "mCurrentMessageLevel s = 1" "mPhase s \<noteq> SCP_PHASE_EXTERNALIZE"
    and "hasVBlockingSubsetStrictlyAheadOf drv (mLatestEnvelopes s) (ballotCounter (mCurrentBallot s))"
  shows "\<exists>n. ballotCounter (mCurrentBallot s) < n \<and>
    \<not> hasVBlockingSubsetStrictlyAheadOf drv (mLatestEnvelopes s) n \<and>
    (\<forall>k. ballotCounter (mCurrentBallot s) \<le> k \<and> k < n \<longrightarrow>
       hasVBlockingSubsetStrictlyAheadOf drv (mLatestEnvelopes s) k) \<and>
    (case bumpTarget n s of
       None \<Rightarrow> attemptBump drv (nestedProc drv) s = Inr (False, s)
     | Some b \<Rightarrow> counter b = n \<and>
         (\<exists>s1. mCurrentBallot s1 = Some b \<and> mPhase s1 = mPhase s \<and> mPrepared s1 = mPrepared s \<and>
            mPreparedPrime s1 = mPreparedPrime s \<and> mLatestEnvelopes s1 = mLatestEnvelopes s \<and>
            (mHighBallot s1, mCommit s1) =
              (if mHighBallot s \<noteq> None \<and> bvalue (the (mHighBallot s)) \<noteq> bvalue b then (None, None)
               else (mHighBallot s, mCommit s)) \<and>
            attemptBump drv (nestedProc drv) s =
              bindE (emitCurrentStateStatement drv (nestedProc drv) s1) (\<lambda>_ s. Inr (True, checkHeardFromQuorum drv s))) \<and>
         (\<forall>r s'. attemptBump drv (nestedProc drv) s = Inr (r, s') \<longrightarrow>
            r \<and> (mPhase s' = mPhase s \<longrightarrow> n \<le> ballotCounter (mCurrentBallot s'))))"
proof (rule attemptBump_to[OF assms(3,4), where proc = "nestedProc drv"])
  fix n assume n: "attemptBump drv (nestedProc drv) s = abandonBallot drv (nestedProc drv) n s"
    "ballotCounter (mCurrentBallot s) < n" "\<not> hasVBlockingSubsetStrictlyAheadOf drv (mLatestEnvelopes s) n"
    "\<And>k. ballotCounter (mCurrentBallot s) \<le> k \<Longrightarrow> k < n \<Longrightarrow> hasVBlockingSubsetStrictlyAheadOf drv (mLatestEnvelopes s) k"
  note tgt = abandonBallot_target[OF assms(1,3) n(2), of drv "nestedProc drv", folded n(1)]
  show ?thesis
  proof (cases "bumpTarget n s")
    case None
    then show ?thesis using tgt n(2-4) by (intro exI[of _ n]) (simp only: option.case, blast)
  next
    case (Some b)
    then obtain s1 where s1: "counter b = n" "pre_inv s1" "bump_rel b s s1" "attemptBump drv (nestedProc drv) s =
        bindE (emitCurrentStateStatement drv (nestedProc drv) s1) (\<lambda>_ s. Inr (True, checkHeardFromQuorum drv s))"
      using tgt by (simp only: option.case) blast
    have fin: "r \<and> (mPhase s' = mPhase s \<longrightarrow> n \<le> ballotCounter (mCurrentBallot s'))"
      if "attemptBump drv (nestedProc drv) s = Inr (r, s')" for r s'
      using bumped_reaches[OF s1(2,3) assms(2) s1(4)[symmetric, unfolded that]] s1(1) by blast
    have "mCurrentBallot s1 = Some b \<and> mPhase s1 = mPhase s \<and> mPrepared s1 = mPrepared s \<and>
        mPreparedPrime s1 = mPreparedPrime s \<and> mLatestEnvelopes s1 = mLatestEnvelopes s \<and>
        (mHighBallot s1, mCommit s1) =
          (if mHighBallot s \<noteq> None \<and> bvalue (the (mHighBallot s)) \<noteq> bvalue b then (None, None)
           else (mHighBallot s, mCommit s))"
      using s1(3) by (cases "mHighBallot s") (simp_all add: bump_rel_def frame_def Let_def)
    then show ?thesis using fin s1(1,4) n(2-4) Some by (intro exI[of _ n]) (simp only: option.case, blast)
  qed
qed

text \<open>
  Node 2 is at the counter 1 and hears that node 1, which it needs, is at the counter 4: it accepts that
  ballot as prepared and bumps its own to it.
\<close>

definition behind :: "scp_error + bool \<times> Slot" where
  "behind = slotBumpState (demoDriver 2) [7] False (newSlot (demoDriver 2) 1)"

definition aheadEnvelope :: SCPEnvelope where
  "aheadEnvelope =
     \<lparr> stmt = \<lparr> nodeID = 1, slotIndex = 1, pledges = PREPARE 1 (SCPBallot 4 [7]) None None 0 0 \<rparr>, signature = [] \<rparr>"

definition aheadSlot :: Slot where
  "aheadSlot = (record_in aheadEnvelope False (snd (projr behind)))\<lparr>mCurrentMessageLevel := 1\<rparr>"

lemma ahead_facts:
  "\<not> isl behind" "mPhase aheadSlot \<noteq> SCP_PHASE_EXTERNALIZE" "ballotCounter (mCurrentBallot aheadSlot) = 1"
  "hasVBlockingSubsetStrictlyAheadOf (demoDriver 2) (mLatestEnvelopes aheadSlot) (ballotCounter (mCurrentBallot aheadSlot))"
  "isNewerStatement (nodeID (stmt aheadEnvelope)) (stmt aheadEnvelope) (snd (projr behind))"
  "pledgesType (pledges (stmt aheadEnvelope)) < 3"
  by code_simp+

lemma behind_reachable: "reachable (demoDriver 2) 1 (snd (projr behind))"
proof -
  have "slot_step (demoDriver 2) (\<lambda>_. True) (newSlot (demoDriver 2) 1) (snd (projr behind))"
  proof (rule slot_step.bump)
    show "slotBumpState (demoDriver 2) [7] False (newSlot (demoDriver 2) 1) = Inr (fst (projr behind), snd (projr behind))"
      using projr_pair[OF ahead_facts(1)] unfolding behind_def .
  qed
  then show ?thesis by (simp add: reachable_def r_into_rtranclp)
qed

lemma behind_inv: "binv (snd (projr behind))" "mCurrentMessageLevel (snd (projr behind)) = 0"
  using reachable_inv[OF behind_reachable] by (simp_all add: slot_inv_def)

lemma ahead_bumps:
  "\<not> isl (attemptBump (demoDriver 2) (nestedProc (demoDriver 2)) aheadSlot)"
  "mCurrentBallot (snd (projr (attemptBump (demoDriver 2) (nestedProc (demoDriver 2)) aheadSlot))) = Some (SCPBallot 4 [7])"
  by code_simp+

theorem attemptBump_lowest_witness:
  "ballotCounter (mCurrentBallot aheadSlot) = 1 \<and>
   mCurrentBallot (snd (projr (attemptBump (demoDriver 2) (nestedProc (demoDriver 2)) aheadSlot))) = Some (SCPBallot 4 [7]) \<and>
   (\<exists>n. \<not> hasVBlockingSubsetStrictlyAheadOf (demoDriver 2) (mLatestEnvelopes aheadSlot) n \<and>
      hasVBlockingSubsetStrictlyAheadOf (demoDriver 2) (mLatestEnvelopes aheadSlot) (ballotCounter (mCurrentBallot aheadSlot)))"
proof -
  have "binv aheadSlot" "mCurrentMessageLevel aheadSlot = 1"
    using record_in_ok(1)[OF behind_inv(1) ahead_facts(5,6)] by (simp_all add: aheadSlot_def)
  from attemptBump_lowest[OF this ahead_facts(2,4)] show ?thesis
    using ahead_facts(3,4) ahead_bumps(2) by blast
qed

section \<open>The loop around attemptBump\<close>

text \<open>
  The four attempts of \<^verbatim>\<open>advanceSlot\<close> that come before its loop, and the place of the loop after them.
\<close>

definition fourAttempts :: "SCPDriver \<Rightarrow> self_proc \<Rightarrow> SCPStatement \<Rightarrow> Slot \<Rightarrow> bool res" where
  "fourAttempts drv proc hint s =
     bindE (attemptAcceptPrepared drv proc hint s) (\<lambda>w1 s.
     bindE (attemptConfirmPrepared drv proc hint s) (\<lambda>w2 s.
     bindE (attemptAcceptCommit drv proc hint s) (\<lambda>w3 s.
     bindE (attemptConfirmCommit drv proc hint s) (\<lambda>w4 s.
     Inr (w1 \<or> w2 \<or> w3 \<or> w4, s)))))"

lemma bindE_assoc: "bindE (bindE m f) g = bindE m (\<lambda>a s. bindE (f a s) g)"
  by (simp add: bindE_def split: sum.split)

lemma advanceSlot_attempts:
  assumes "mCurrentMessageLevel s = 0"
  shows "advanceSlot drv proc hint s =
    bindE (fourAttempts drv proc hint (s\<lparr>mCurrentMessageLevel := 1\<rparr>)) (\<lambda>w s.
    bindE (if mCurrentMessageLevel s = 1 then
             bindE (case bumpLoop drv proc w s of None \<Rightarrow> Inl Diverges | Some r \<Rightarrow> r)
               (\<lambda>w s. Inr (w, checkHeardFromQuorum drv s))
           else Inr (w, s)) (\<lambda>w s.
    Inr ((), if w then sendLatestEnvelope (s\<lparr>mCurrentMessageLevel := mCurrentMessageLevel s - 1\<rparr>)
             else s\<lparr>mCurrentMessageLevel := mCurrentMessageLevel s - 1\<rparr>)))"
  using assms
  by (simp add: advanceSlot_def fourAttempts_def bindE_assoc Let_def MAX_ADVANCE_SLOT_RECURSION_def cong: if_cong)

lemma fourAttempts_good:
  assumes "binv s" "proc_ok drv proc (mCurrentMessageLevel s)"
  shows "good drv s (fourAttempts drv proc hint s)"
proof -
  have pr: "proc_ok drv proc (mCurrentMessageLevel s')" if "evolves drv {localNodeID drv} s s'" for s'
    using assms(2) evolves_level[OF that] by simp
  have step: "post (bindE m f) expected_error Q"
    if "evolves drv {localNodeID drv} s s'" "good drv s' m"
      "\<And>a s''. binv s'' \<Longrightarrow> evolves drv {localNodeID drv} s s'' \<Longrightarrow> post (f a s'') expected_error Q"
    for m :: "bool res" and f :: "bool \<Rightarrow> Slot \<Rightarrow> bool res" and s' Q
    using that(2) by (rule good_post_bind) (use that evolves_local_trans in blast)
  show ?thesis
    unfolding fourAttempts_def good_def
    by (rule step[OF evolves_refl attemptAcceptPrepared_good[OF assms]],
        rule step, assumption, rule attemptConfirmPrepared_good, assumption, erule pr,
        rule step, assumption, rule attemptAcceptCommit_good, assumption, erule pr,
        rule step, assumption, rule attemptConfirmCommit_good, assumption, erule pr, simp)
qed

lemma attemptBump_stays:
  assumes "binv s" "attemptBump drv proc s = Inr (False, s')"
  shows "s' = s"
proof (cases "mPhase s \<noteq> SCP_PHASE_EXTERNALIZE \<and>
    hasVBlockingSubsetStrictlyAheadOf drv (mLatestEnvelopes s) (ballotCounter (mCurrentBallot s))")
  case True
  then have t: "mPhase s \<noteq> SCP_PHASE_EXTERNALIZE"
    "hasVBlockingSubsetStrictlyAheadOf drv (mLatestEnvelopes s) (ballotCounter (mCurrentBallot s))" by simp_all
  obtain n where n: "attemptBump drv proc s = abandonBallot drv proc n s" "ballotCounter (mCurrentBallot s) < n"
    by (rule attemptBump_to[OF t])
  have "\<nexists>s1. attemptBump drv proc s =
      bindE (emitCurrentStateStatement drv proc s1) (\<lambda>_ s. Inr (True, checkHeardFromQuorum drv s))"
    using assms(2) by (auto simp: bindE_def split: sum.splits)
  then have "abandonBallot drv proc n s = Inr (False, s)"
    using abandonBallot_target[OF assms(1) t(1) n(2), of drv proc] unfolding n(1) by (cases "bumpTarget n s") auto
  then show ?thesis using assms(2) n(1) by simp
next
  case False
  then show ?thesis using assms(2) by (cases "mPhase s") (auto simp: attemptBump_def Let_def)
qed

lemma bumpLoop_exit:
  assumes "binv s" "proc_ok drv proc (mCurrentMessageLevel s)" "bumpLoop drv proc d s = Some (Inr (w, s'))"
  shows "attemptBump drv proc s' = Inr (False, s')"
  using assms
proof (induction s arbitrary: d rule: wf_induct_rule[OF wf_bump_measure])
  case (1 s)
  note post = attemptBump_post[OF 1(2,3)]
  obtain b t where t: "attemptBump drv proc s = Inr (b, t)"
    using 1(4) by (cases "attemptBump drv proc s") (auto simp: bumpLoop.simps)
  have t': "binv t" "evolves drv {localNodeID drv} s t" "b \<Longrightarrow> advances s t" using post by (simp_all add: t)
  show ?case
  proof (cases b)
    case True
    have "bumpLoop drv proc True t = Some (Inr (w, s'))" using 1(4) True by (simp add: bumpLoop.simps[of _ _ _ s] t)
    moreover have "proc_ok drv proc (mCurrentMessageLevel t)" using 1(3) evolves_level[OF t'(2)] by simp
    ultimately show ?thesis using 1(1)[OF advances_measure[OF t'(3)[OF True]] t'(1)] by blast
  next
    case False
    then have "s' = t" using 1(4) by (simp add: bumpLoop.simps[of _ _ _ s] t)
    moreover have "t = s" by (rule attemptBump_stays[OF 1(2)]) (use t False in simp)
    ultimately show ?thesis using t False by simp
  qed
qed

text \<open>
  Property C22. The do-while loop around \<^verbatim>\<open>attemptBump\<close> in \<^verbatim>\<open>advanceSlot\<close> ends whenever an envelope gets the slot
  there: after the envelope is recorded and the four attempts have been made at level 1, each iteration that
  bumps moves to a later phase or to a higher ballot counter. No statement the node emits meanwhile runs
  forever, and a loop that ends without an exception leaves a slot that \<^verbatim>\<open>attemptBump\<close> does not move.
\<close>

theorem bumpLoop_terminates:
  assumes "binv s" "mCurrentMessageLevel s = 0"
    and "pledgesType (pledges (stmt e)) < 3" "isNewerStatement (nodeID (stmt e)) (stmt e) s"
    and "fourAttempts drv (nestedProc drv) (stmt e) ((record_in e d s)\<lparr>mCurrentMessageLevel := 1\<rparr>) = Inr (w, s1)"
  shows "mCurrentMessageLevel s1 = 1 \<and>
    (\<exists>r. bumpLoop drv (nestedProc drv) w s1 = Some r \<and> r \<notin> {Inl Diverges, Inl OutOfFuel} \<and>
       (\<forall>w' s'. r = Inr (w', s') \<longrightarrow> attemptBump drv (nestedProc drv) s' = Inr (False, s')))"
proof -
  let ?s = "(record_in e d s)\<lparr>mCurrentMessageLevel := 1\<rparr>"
  have "binv ?s" using record_in_ok(1)[OF assms(1,4,3)] by simp
  then have "good drv ?s (fourAttempts drv (nestedProc drv) (stmt e) ?s)"
    by (rule fourAttempts_good) (use nestedProc_ok in simp)
  then have s1: "binv s1" "mCurrentMessageLevel s1 = 1" using assms(5) evolves_level by fastforce+
  then have pr: "proc_ok drv (nestedProc drv) (mCurrentMessageLevel s1)" using nestedProc_ok by simp
  then obtain r where r: "bumpLoop drv (nestedProc drv) w s1 = Some r" "good drv s1 r"
    using bumpLoop_ends[OF s1(1)] by blast
  have "r \<notin> {Inl Diverges, Inl OutOfFuel}" using r(2) by (auto simp: expected_error_def)
  moreover have "attemptBump drv (nestedProc drv) s' = Inr (False, s')" if "r = Inr (w', s')" for w' s'
    using bumpLoop_exit[OF s1(1) pr] r(1) that by blast
  ultimately show ?thesis using r(1) s1(2) by blast
qed

definition attempted :: "scp_error + bool \<times> Slot" where
  "attempted = fourAttempts (demoDriver 2) (nestedProc (demoDriver 2)) (stmt aheadEnvelope) aheadSlot"

lemma attempted_facts:
  "\<not> isl attempted" "mPrepared (snd (projr attempted)) = Some (SCPBallot 4 [7])"
  "mCurrentBallot (snd (projr attempted)) = Some (SCPBallot 1 [7])"
  "mCurrentBallot (snd (projr (the (bumpLoop (demoDriver 2) (nestedProc (demoDriver 2)) (fst (projr attempted))
     (snd (projr attempted)))))) = Some (SCPBallot 4 [7])"
  by code_simp+

theorem bumpLoop_terminates_witness:
  "mCurrentBallot (snd (projr attempted)) = Some (SCPBallot 1 [7]) \<and>
   (\<exists>r. bumpLoop (demoDriver 2) (nestedProc (demoDriver 2)) (fst (projr attempted)) (snd (projr attempted)) = Some r \<and>
      r \<notin> {Inl Diverges, Inl OutOfFuel} \<and> mCurrentBallot (snd (projr r)) = Some (SCPBallot 4 [7]))"
proof -
  have "fourAttempts (demoDriver 2) (nestedProc (demoDriver 2)) (stmt aheadEnvelope)
      ((record_in aheadEnvelope False (snd (projr behind)))\<lparr>mCurrentMessageLevel := 1\<rparr>) =
      Inr (fst (projr attempted), snd (projr attempted))"
    using projr_pair[OF attempted_facts(1)] unfolding attempted_def aheadSlot_def .
  from bumpLoop_terminates[OF behind_inv ahead_facts(6,5) this] attempted_facts(3,4) show ?thesis by fastforce
qed

section \<open>Restoring a slot\<close>

text \<open>
  A slot whose ballot protocol has not started, and what recording an envelope and bumping to its ballot
  makes of it.
\<close>

definition untouched :: "Slot \<Rightarrow> bool" where
  "untouched s \<longleftrightarrow>
     mCurrentBallot s = None \<and> mPrepared s = None \<and> mPreparedPrime s = None \<and> mHighBallot s = None \<and>
     mCommit s = None \<and> mPhase s = SCP_PHASE_PREPARE"

lemma untouched_newSlot: "untouched (newSlot drv i)"
  by (simp add: untouched_def newSlot_def)

definition carried :: "SCPEnvelope \<Rightarrow> Slot \<Rightarrow> Slot \<Rightarrow> bool" where
  "carried e s s' \<longleftrightarrow>
     mLatestEnvelopes s' = omap_insert (nodeID (stmt e)) e (mLatestEnvelopes s) \<and> mNomination s' = mNomination s \<and>
     mCurrentMessageLevel s' = mCurrentMessageLevel s \<and>
     filter isExternalized (mDriverCalls s') = filter isExternalized (mDriverCalls s)"

definition restored :: "SCPEnvelope \<Rightarrow> Slot \<Rightarrow> Slot" where
  "restored e s = (recordEnvelope e s)\<lparr>mLastEnvelope := Some e, mLastEnvelopeEmit := Some e\<rparr>"

lemma bump_restored:
  assumes "untouched s"
  shows "\<exists>s1. bumpToBallot b True (restored e s) = Inr ((), s1) \<and> mCurrentBallot s1 = Some b \<and>
     mPrepared s1 = None \<and> mPreparedPrime s1 = None \<and> mHighBallot s1 = None \<and> mCommit s1 = None \<and>
     mPhase s1 = SCP_PHASE_PREPARE \<and> carried e s s1"
  using assms
  by (simp add: bumpToBallot_def Let_def restored_def untouched_def carried_def recordEnvelope_def recordStatement_def logCall_def)

lemma restore_start:
  assumes "untouched s"
  shows "setBallotStateFromEnvelope e s =
     (case pledges (stmt e) of
        PREPARE _ b p p' nC nH \<Rightarrow>
          bindE (bumpToBallot b True (restored e s)) (\<lambda>_ s.
            let s = (if p \<noteq> None then s\<lparr>mPrepared := p\<rparr> else s);
                s = (if p' \<noteq> None then s\<lparr>mPreparedPrime := p'\<rparr> else s);
                s = (if nH \<noteq> 0 then s\<lparr>mHighBallot := Some (SCPBallot nH (bvalue b))\<rparr> else s);
                s = (if nC \<noteq> 0 then s\<lparr>mCommit := Some (SCPBallot nC (bvalue b))\<rparr> else s)
            in Inr ((), s\<lparr>mPhase := SCP_PHASE_PREPARE\<rparr>))
      | CONFIRM b nPrepared nCommit nH _ \<Rightarrow>
          bindE (bumpToBallot b True (restored e s)) (\<lambda>_ s.
            Inr ((), s\<lparr>mPrepared := Some (SCPBallot nPrepared (bvalue b)),
                       mHighBallot := Some (SCPBallot nH (bvalue b)),
                       mCommit := Some (SCPBallot nCommit (bvalue b)),
                       mPhase := SCP_PHASE_CONFIRM\<rparr>))
      | EXTERNALIZE commit nH _ \<Rightarrow>
          bindE (bumpToBallot (SCPBallot UINT32_MAX (bvalue commit)) True (restored e s)) (\<lambda>_ s.
            Inr ((), s\<lparr>mPrepared := Some (SCPBallot UINT32_MAX (bvalue commit)),
                       mHighBallot := Some (SCPBallot nH (bvalue commit)),
                       mCommit := Some commit,
                       mPhase := SCP_PHASE_EXTERNALIZE\<rparr>))
      | NOMINATE _ _ _ \<Rightarrow> Inl AbortNominate)"
  using assms unfolding setBallotStateFromEnvelope_def restored_def Let_def by (simp add: untouched_def)

text \<open>What a slot is like that has been restored from the statement of another slot.\<close>

definition pledges_again :: "SCPDriver \<Rightarrow> Slot \<Rightarrow> SCPPledges \<Rightarrow> SCPPhase \<Rightarrow> bool" where
  "pledges_again drv s' pl ph \<longleftrightarrow> mPhase s' = ph \<and> checkInvariants s' = Inr ((), s') \<and> createPledges drv s' = Inr pl"

definition restores :: "SCPDriver \<Rightarrow> SCPPledges \<Rightarrow> SCPEnvelope \<Rightarrow> Slot \<Rightarrow> Slot \<Rightarrow> Slot \<Rightarrow> bool" where
  "restores drv pl e s s0 s' \<longleftrightarrow>
     pledges_again drv s' pl (mPhase s) \<and> carried e s0 s' \<and> ballot_le (mCurrentBallot s) (mCurrentBallot s') \<and>
     (mPhase s \<noteq> SCP_PHASE_PREPARE \<longrightarrow> map_option bvalue (mCommit s') = map_option bvalue (mCommit s)) \<and>
     (latest_ok (mLatestEnvelopes s0) \<longrightarrow> binv s')"

lemma restore_prepare:
  assumes inv: "binv s" and ph: "mPhase s = SCP_PHASE_PREPARE" and b: "mCurrentBallot s = Some b"
    and pl: "createPledges drv s = Inr pl" and e: "pledges (stmt e) = pl" and u: "untouched s0"
  shows "\<exists>s'. setBallotStateFromEnvelope e s0 = Inr ((), s') \<and> restores drv pl e s s0 s'"
proof -
  let ?c = "ballotCounter (mCommit s)" and ?h = "ballotCounter (mHighBallot s)"
  have pl_eq: "pl = PREPARE (localQSetHash drv) b (mPrepared s) (mPreparedPrime s) ?c ?h"
    using pl ph b by (simp add: createPledges_def)
  obtain s1 where s1: "bumpToBallot b True (restored e s0) = Inr ((), s1)" "mCurrentBallot s1 = Some b"
    "mPrepared s1 = None" "mPreparedPrime s1 = None" "mHighBallot s1 = None" "mCommit s1 = None" "carried e s0 s1"
    using bump_restored[OF u] by blast
  have "\<exists>s'. setBallotStateFromEnvelope e s0 = Inr ((), s') \<and> mCurrentBallot s' = Some b \<and>
      mPrepared s' = mPrepared s \<and> mPreparedPrime s' = mPreparedPrime s \<and> mPhase s' = SCP_PHASE_PREPARE \<and>
      mHighBallot s' = (if ?h \<noteq> 0 then Some (SCPBallot ?h (bvalue b)) else None) \<and>
      mCommit s' = (if ?c \<noteq> 0 then Some (SCPBallot ?c (bvalue b)) else None) \<and> carried e s0 s'"
    unfolding restore_start[OF u] e pl_eq SCPPledges.case s1(1) bindE_simps Let_def using s1(7)
    by (cases "mPrepared s"; cases "mPreparedPrime s"; cases "?h = 0"; cases "?c = 0") (simp_all add: s1(2-6) carried_def)
  then obtain s' where s': "setBallotStateFromEnvelope e s0 = Inr ((), s')" "mCurrentBallot s' = Some b"
    "mPrepared s' = mPrepared s" "mPreparedPrime s' = mPreparedPrime s" "mPhase s' = SCP_PHASE_PREPARE"
    "mHighBallot s' = (if ?h \<noteq> 0 then Some (SCPBallot ?h (bvalue b)) else None)"
    "mCommit s' = (if ?c \<noteq> 0 then Some (SCPBallot ?c (bvalue b)) else None)" "carried e s0 s'"
    by blast
  have ch: "under (mCommit s) (mHighBallot s)" "under (mHighBallot s) (mCurrentBallot s)"
    "prepared_ok (mPreparedPrime s) (mPrepared s)" "counter b \<noteq> 0"
    using inv b by (simp_all add: binv_def pre_inv_def)
  have le: "?c \<le> ?h" "?h \<le> counter b" using ch(1,2) b
    by (cases "mCommit s"; cases "mHighBallot s"; simp add: ballotCounter_def)+
  have binv: "binv s'" if "latest_ok (mLatestEnvelopes s0)"
    unfolding binv_def pre_inv_def s'(2-7) using ch(3,4) le s'(8) latest_ok_insert[OF that, of e]
    by (auto simp: carried_def e pl_eq pledgesType_def)
  have "checkInvariants s' = Inr ((), s')"
    using ch(3,4) le unfolding checkInvariants_def s'(2-7)
    by (cases "mPrepared s"; cases "mPreparedPrime s") (auto simp: lessCompatible_iff lessIncompatible_iff)
  moreover have "createPledges drv s' = Inr pl"
    unfolding createPledges_def s'(2-7) pl_eq by (simp add: ballotCounter_def[of "if _ then _ else _"])
  ultimately show ?thesis using s' binv ph b by (auto simp: restores_def pledges_again_def)
qed

lemma restore_confirm:
  assumes inv: "binv s" and ph: "mPhase s = SCP_PHASE_CONFIRM"
    and pl: "createPledges drv s = Inr pl" and e: "pledges (stmt e) = pl" and u: "untouched s0"
  shows "\<exists>s'. setBallotStateFromEnvelope e s0 = Inr ((), s') \<and> restores drv pl e s s0 s'"
proof -
  obtain b p c h where f: "mCurrentBallot s = Some b" "mPrepared s = Some p" "mCommit s = Some c" "mHighBallot s = Some h"
    using pl ph by (cases "mCurrentBallot s"; cases "mPrepared s"; cases "mCommit s"; cases "mHighBallot s")
      (simp_all add: createPledges_def)
  have pl_eq: "pl = CONFIRM b (counter p) (counter c) (counter h) (localQSetHash drv)"
    using pl ph f by (simp add: createPledges_def)
  have le: "counter c \<le> counter h" "counter h \<le> counter b" "counter b \<noteq> 0" "bvalue c = bvalue b"
    using inv f by (simp_all add: binv_def pre_inv_def)
  obtain s1 where s1: "bumpToBallot b True (restored e s0) = Inr ((), s1)" "mCurrentBallot s1 = Some b"
    "mPreparedPrime s1 = None" "carried e s0 s1"
    using bump_restored[OF u] by blast
  show ?thesis
    unfolding restore_start[OF u] e pl_eq SCPPledges.case s1(1) bindE_simps
    using le s1(2-4) f ph latest_ok_insert[of "mLatestEnvelopes s0" e]
    by (simp add: restores_def pledges_again_def checkInvariants_def createPledges_def lessCompatible_iff carried_def
        binv_def pre_inv_def e pl_eq pledgesType_def)
qed

lemma uint32_le_max: "(w :: uint32) \<le> UINT32_MAX"
proof -
  have "UINT32_MAX = (- 1 :: uint32)" by simp
  then show ?thesis by (simp only: word_n1_ge)
qed

lemma restore_externalize:
  assumes inv: "binv s" and ph: "mPhase s = SCP_PHASE_EXTERNALIZE"
    and pl: "createPledges drv s = Inr pl" and e: "pledges (stmt e) = pl" and u: "untouched s0"
  shows "\<exists>s'. setBallotStateFromEnvelope e s0 = Inr ((), s') \<and> restores drv pl e s s0 s'"
proof -
  obtain c h where f: "mCommit s = Some c" "mHighBallot s = Some h"
    using pl ph by (cases "mCommit s"; cases "mHighBallot s") (simp_all add: createPledges_def)
  have pl_eq: "pl = EXTERNALIZE c (counter h) (localQSetHash drv)"
    using pl ph f by (simp add: createPledges_def)
  have le: "counter c \<le> counter h" "counter h \<le> UINT32_MAX"
    using inv f uint32_le_max by (simp_all add: binv_def pre_inv_def)
  have cur: "ballot_le (mCurrentBallot s) (Some (SCPBallot UINT32_MAX (bvalue c)))"
  proof (cases "mCurrentBallot s")
    case (Some b)
    then have "bvalue b = bvalue c" using inv f by (simp add: binv_def pre_inv_def)
    then show ?thesis using uint32_le_max[of "counter b"] Some by (auto simp: ballot_le_iff)
  qed simp
  obtain s1 where s1: "bumpToBallot (SCPBallot UINT32_MAX (bvalue c)) True (restored e s0) = Inr ((), s1)"
    "mCurrentBallot s1 = Some (SCPBallot UINT32_MAX (bvalue c))" "mPreparedPrime s1 = None" "carried e s0 s1"
    using bump_restored[OF u] by blast
  show ?thesis
    unfolding restore_start[OF u] e pl_eq SCPPledges.case s1(1) bindE_simps
    using le s1(2-4) f ph cur latest_ok_insert[of "mLatestEnvelopes s0" e]
    by (simp add: restores_def pledges_again_def checkInvariants_def createPledges_def lessCompatible_iff carried_def
        binv_def pre_inv_def e pl_eq pledgesType_def)
qed

lemma restore_ballots:
  assumes inv: "binv s" and b: "mCurrentBallot s \<noteq> None" and st: "createStatement drv s = Inr pl"
    and e: "pledges (stmt e) = pl" and u: "untouched s0"
  shows "\<exists>s'. setBallotStateFromEnvelope e s0 = Inr ((), s') \<and> restores drv pl e s s0 s'"
proof -
  have pl: "createPledges drv s = Inr pl"
    using st by (cases "checkInvariants s") (simp_all add: createStatement_def)
  show ?thesis
  proof (cases "mPhase s")
    case SCP_PHASE_PREPARE
    then show ?thesis using restore_prepare[OF inv _ _ pl e u] b by blast
  next
    case SCP_PHASE_CONFIRM
    then show ?thesis by (rule restore_confirm[OF inv _ pl e u])
  next
    case SCP_PHASE_EXTERNALIZE
    then show ?thesis by (rule restore_externalize[OF inv _ pl e u])
  qed
qed

text \<open>
  Property C23. Restoring a node from its own last ballot statement: \<^verbatim>\<open>setStateFromEnvelope\<close> on a new slot,
  given the statement of a reachable slot that has started the ballot protocol, succeeds. The restored
  slot is in the same phase, passes \<^verbatim>\<open>checkInvariants\<close> and creates the same statement again.
\<close>

theorem restore_roundtrip:
  assumes "reachable drv i s" "mCurrentBallot s \<noteq> None" "createStatement drv s = Inr pl"
  shows "\<exists>s'. setBallotStateFromEnvelope (createEnvelope drv s pl) (newSlot drv i) = Inr ((), s') \<and>
    mPhase s' = mPhase s \<and> checkInvariants s' = Inr ((), s') \<and> createStatement drv s' = Inr pl"
proof -
  have inv: "binv s" using reachable_inv[OF assms(1)] by (simp add: slot_inv_def)
  have e: "pledges (stmt (createEnvelope drv s pl)) = pl" by (simp add: createEnvelope_def Let_def)
  from restore_ballots[OF inv assms(2,3) e untouched_newSlot[of drv i]] show ?thesis
    by (auto simp: restores_def pledges_again_def createStatement_def)
qed

theorem restore_roundtrip_witness:
  "createStatement (demoDriver 1) demoSlot1 = Inr (EXTERNALIZE (SCPBallot 1 [7]) 1 1) \<and>
   (\<exists>s'. createStatement (demoDriver 1) s' = Inr (EXTERNALIZE (SCPBallot 1 [7]) 1 1) \<and> mPhase s' = mPhase demoSlot1)"
proof -
  have facts: "createStatement (demoDriver 1) demoSlot1 = Inr (EXTERNALIZE (SCPBallot 1 [7]) 1 1)"
    "mCurrentBallot demoSlot1 \<noteq> None"
    by code_simp+
  have "reachable (demoDriver 1) 1 demoSlot1" by (rule demo_reachable(1))
  from restore_roundtrip[OF this facts(2,1)] facts(1) show ?thesis by blast
qed

end
