(* ===== verification/NominationSpec.thy ===== *)
theory NominationSpec
  imports Demo
begin

text \<open>
  The properties of the nomination protocol: the sets of values over the runs of a slot, the end of the
  processing of nominations, the order of nominations, and the leaders of a round.
\<close>

section \<open>The sets of values\<close>

text \<open>
  Property C32. The sets of a nomination are well formed in every reachable state: candidates are accepted
  values, accepted values are votes, the sets of values and of leaders are ordered without duplicates, and
  the latest nominations are sane nominations of the nodes they are filed under.
\<close>

theorem nomination_sets_ok:
  assumes "reachable drv i s"
  shows "set (mCandidates (mNomination s)) \<subseteq> set (mAccepted (mNomination s)) \<and>
    set (mAccepted (mNomination s)) \<subseteq> set (mVotes (mNomination s)) \<and>
    sorted_wrt (<) (mVotes (mNomination s)) \<and> sorted_wrt (<) (mAccepted (mNomination s)) \<and>
    sorted_wrt (<) (mCandidates (mNomination s)) \<and> sorted_wrt (<) (mRoundLeaders (mNomination s)) \<and>
    (\<forall>(n, e) \<in> set (mLatestNominations (mNomination s)). nodeID (stmt e) = n \<and> isSane (stmt e))"
proof -
  have "ninv (mNomination s)" using reachable_inv[OF assms] by (simp add: slot_inv_def)
  then show ?thesis unfolding ninv_def noms_ok_def by blast
qed

lemma nominate_reachable:
  assumes "nominate drv v p False (newSlot drv i) \<noteq> None" "\<not> isl (the (nominate drv v p False (newSlot drv i)))" "p \<noteq> []"
  shows "reachable drv i (snd (projr (the (nominate drv v p False (newSlot drv i)))))"
proof -
  let ?r = "the (nominate drv v p False (newSlot drv i))"
  have "nominate drv v p False (newSlot drv i) = Some (Inr (fst (projr ?r), snd (projr ?r)))"
    using projr_pair[OF assms(2)] assms(1) by (metis option.collapse)
  then have "slot_step drv (\<lambda>_. True) (newSlot drv i) (snd (projr ?r))"
    by (rule slot_step.nominate[rotated]) (rule assms(3))
  then show ?thesis by (simp add: reachable_def r_into_rtranclp)
qed

text \<open>A single node that nominates a value makes it a candidate at once.\<close>

definition nominated :: "scp_error + bool \<times> Slot" where
  "nominated = the (nominate (demoDriver 1) [7] [9] False (newSlot (demoDriver 1) 1))"

lemma nominated_facts:
  "nominate (demoDriver 1) [7] [9] False (newSlot (demoDriver 1) 1) \<noteq> None" "\<not> isl nominated"
  "mCandidates (mNomination (snd (projr nominated))) = [[7]]"
  by code_simp+

lemma nominated_reachable: "reachable (demoDriver 1) 1 (snd (projr nominated))"
  unfolding nominated_def by (rule nominate_reachable) (use nominated_facts(1,2) in \<open>simp_all add: nominated_def\<close>)

theorem nomination_sets_ok_witness:
  "mCandidates (mNomination (snd (projr nominated))) = [[7]] \<and>
   set (mCandidates (mNomination (snd (projr nominated)))) \<subseteq> set (mAccepted (mNomination (snd (projr nominated))))"
  using nomination_sets_ok[OF nominated_reachable] nominated_facts(3) by blast

text \<open>
  Property C33. Nominations only grow: along a run no vote, accepted value, candidate or round leader is
  ever withdrawn, the round number never decreases and stays in the range of its 32 bits, and the values
  nominated by each node only grow. A round number that would leave the range is an error, not a step.
\<close>

theorem nomination_grows:
  assumes "reachable drv i s" "(slot_step drv E)\<^sup>*\<^sup>* s s'"
  shows "set (mVotes (mNomination s)) \<subseteq> set (mVotes (mNomination s')) \<and>
    set (mAccepted (mNomination s)) \<subseteq> set (mAccepted (mNomination s')) \<and>
    set (mCandidates (mNomination s)) \<subseteq> set (mCandidates (mNomination s')) \<and>
    set (mRoundLeaders (mNomination s)) \<subseteq> set (mRoundLeaders (mNomination s')) \<and>
    0 \<le> mRoundNumber (mNomination s) \<and> mRoundNumber (mNomination s) \<le> mRoundNumber (mNomination s') \<and>
    mRoundNumber (mNomination s') \<le> INT32_MAX \<and>
    (\<forall>k e. omap_find (mLatestNominations (mNomination s)) k = Some e \<longrightarrow>
       (\<exists>e'. omap_find (mLatestNominations (mNomination s')) k = Some e' \<and>
          fst (nom_sets (stmt e)) \<subseteq> fst (nom_sets (stmt e')) \<and> snd (nom_sets (stmt e)) \<subseteq> snd (nom_sets (stmt e'))))"
proof -
  note inv = reachable_inv[OF assms(1)]
  have "ninv (mNomination s)" "ninv (mNomination s')"
    using inv slot_runs.run_inv[OF assms(2) inv] by (simp_all add: slot_inv_def)
  moreover have "slot_rel s s'" by (rule slot_runs.run_rel[OF assms(2) inv])
  ultimately show ?thesis unfolding slot_rel_def grows_def noms_step_def ninv_def by blast
qed

theorem nomination_grows_witness:
  "reachable (demoDriver 1) 1 (snd (projr nominated)) \<and>
   set (mVotes (mNomination (snd (projr nominated)))) \<subseteq> set (mVotes (mNomination (stopNomination (snd (projr nominated)))))"
proof -
  have "slot_step (demoDriver 1) (\<lambda>_. True) (snd (projr nominated)) (stopNomination (snd (projr nominated)))"
    by (rule slot_step.stop)
  then have run: "(slot_step (demoDriver 1) (\<lambda>_. True))\<^sup>*\<^sup>* (snd (projr nominated)) (stopNomination (snd (projr nominated)))"
    by (rule r_into_rtranclp)
  show ?thesis using nomination_grows[OF nominated_reachable run] nominated_reachable by blast
qed

section \<open>Processing nominations\<close>

text \<open>
  Property C31. Processing a nomination ends, although a node processes its own new nominations without a
  bound on the nesting: it is enough that the votes, the accepted values and the nominated values lie in
  some finite set that \<^verbatim>\<open>extractValidValue\<close> does not leave. Each nested call has more votes or accepted values.
  Neither does the ballot protocol, which a new candidate starts, run forever.
\<close>

theorem processNomination_terminates:
  assumes "reachable drv i s" "finite U"
    and "set (mVotes (mNomination s)) \<subseteq> U" "set (mAccepted (mNomination s)) \<subseteq> U"
    and "set (nominationValues (pledges (stmt e))) \<subseteq> U"
    and "\<And>v x. v \<in> U \<Longrightarrow> extractValidValue drv (mSlotIndex s) v = Some x \<Longrightarrow> x \<in> U"
  shows "\<exists>r. processNomination drv e s = Some r \<and> r \<notin> {Inl Diverges, Inl OutOfFuel}"
proof -
  note st = slot_inv_nstate[OF reachable_inv[OF assms(1)]]
  have "votes_in drv s U" using assms(3,4,6) by (simp add: votes_in_def)
  then obtain r where r: "processNomination drv e s = Some r"
    using processNomination_ends[OF assms(2) st _ assms(5)] by blast
  have "r \<notin> {Inl Diverges, Inl OutOfFuel}"
    using processNomination_ok[OF r st] by (cases r) (auto simp: nom_processed_def expected_error_def)
  then show ?thesis using r by blast
qed

text \<open>
  Node 2 has started to nominate its own value and hears that node 1 has accepted another one: it accepts
  that value, emits and processes its own new nomination, and ends with a candidate.
\<close>

definition nominationDemo :: SCPEnvelope where
  "nominationDemo =
     \<lparr> stmt = \<lparr> nodeID = 1, slotIndex = 1, pledges = NOMINATE 1 [[7]] [[7]] \<rparr>, signature = [] \<rparr>"

definition nominating :: "scp_error + bool \<times> Slot" where
  "nominating = the (nominate (demoDriver 2) [8] [9] False (newSlot (demoDriver 2) 1))"

definition nominationDone :: "scp_error + EnvelopeState \<times> Slot" where
  "nominationDone = the (processNomination (demoDriver 2) nominationDemo (snd (projr nominating)))"

lemma nominating_facts:
  "nominate (demoDriver 2) [8] [9] False (newSlot (demoDriver 2) 1) \<noteq> None" "\<not> isl nominating"
  "mVotes (mNomination (snd (projr nominating))) = [[8]]" "mAccepted (mNomination (snd (projr nominating))) = []"
  "mAccepted (mNomination (snd (projr nominationDone))) = [[7]]"
  "mCandidates (mNomination (snd (projr nominationDone))) = [[7]]"
  by code_simp+

theorem processNomination_terminates_witness:
  "(\<exists>r. processNomination (demoDriver 2) nominationDemo (snd (projr nominating)) = Some r \<and> r \<notin> {Inl Diverges, Inl OutOfFuel}) \<and>
   mCandidates (mNomination (snd (projr nominationDone))) = [[7]]"
proof -
  have "reachable (demoDriver 2) 1 (snd (projr nominating))"
    unfolding nominating_def by (rule nominate_reachable) (use nominating_facts(1,2) in \<open>simp_all add: nominating_def\<close>)
  then have "\<exists>r. processNomination (demoDriver 2) nominationDemo (snd (projr nominating)) = Some r \<and> r \<notin> {Inl Diverges, Inl OutOfFuel}"
    by (rule processNomination_terminates[where U = "{[7], [8]}"])
      (use nominating_facts(3,4) in \<open>simp_all add: nominationDemo_def nominationValues_def demoDriver_def\<close>)
  then show ?thesis using nominating_facts(6) by blast
qed

text \<open>
  Property C34. On sane nominations \<^verbatim>\<open>isNewerStatement\<close> is the strict order of pairs of sets: one nomination
  is newer than another exactly when its votes and its accepted values include those of the other, and one
  of the two sets is larger. The comparison by sizes and sorted merges of the source decides it.
\<close>

theorem isNewerNomination_supersets:
  assumes "isSane old" "isSane st"
    and "pledges old = NOMINATE h v a" "pledges st = NOMINATE h' v' a'"
  shows "isNewerNomination2 old st \<longleftrightarrow>
    set v \<subseteq> set v' \<and> set a \<subseteq> set a' \<and> (set v \<noteq> set v' \<or> set a \<noteq> set a')"
  using isNewerNomination2_iff[OF assms(1,2)] assms(3,4) by (simp add: nom_sets_def)

theorem isNewerNomination_supersets_witness:
  "isSane \<lparr> nodeID = 1, slotIndex = 1, pledges = NOMINATE 1 [[7]] [] \<rparr> \<and>
   isNewerNomination2 \<lparr> nodeID = 1, slotIndex = 1, pledges = NOMINATE 1 [[7]] [] \<rparr>
     \<lparr> nodeID = 1, slotIndex = 1, pledges = NOMINATE 1 [[7], [8]] [[7]] \<rparr>"
proof -
  have sane: "isSane \<lparr> nodeID = 1, slotIndex = 1, pledges = NOMINATE 1 [[7]] [] \<rparr>"
    "isSane \<lparr> nodeID = 1, slotIndex = 1, pledges = NOMINATE 1 [[7], [8]] [[7]] \<rparr>"
    by code_simp+
  show ?thesis using isNewerNomination_supersets[OF sane, of 1 "[[7]]" "[]" 1 "[[7], [8]]" "[[7]]"] sane(1) by simp
qed

section \<open>Round leaders\<close>

definition priority :: "SCPDriver \<Rightarrow> SCPQuorumSet \<Rightarrow> Slot \<Rightarrow> node_id \<Rightarrow> uint64" where
  "priority drv q s n = projr (getNodePriority drv n q s)"

lemma getNodePriority_defined:
  assumes "small_ok q" "mPreviousValue (mNomination s) \<noteq> []"
  shows "getNodePriority drv n q s = Inr (priority drv q s n)"
proof -
  obtain w where "getNodeWeight n q = Inr w" using getNodeWeight_ok[OF assms(1)] by blast
  then show ?thesis using assms(2) by (simp add: priority_def getNodePriority_def hashNode_def)
qed

text \<open>
  Property C35. The leaders of a round are the nodes of highest priority among the node itself and the
  nodes of the quorum set: exactly the nodes whose priority is the maximum are elected, except that a node
  of priority 0 other than the local one never is. No assertion fails for a sane quorum set.
\<close>

theorem roundLeaders_highest:
  assumes "isQuorumSetSane q extra" "mPreviousValue (mNomination s) \<noteq> []"
  shows "\<exists>ls. newRoundLeaders drv q s = Inr ls \<and> sorted_wrt (<) ls \<and>
    set ls = {n \<in> insert (localNodeID drv) (set (qset_nodes q)).
      priority drv q s n = Max (priority drv q s ` insert (localNodeID drv) (set (qset_nodes q))) \<and>
      (0 < priority drv q s n \<or> n = localNodeID drv)}"
proof (rule newRoundLeaders_eq[OF _ refl])
  show "\<forall>n \<in> insert (localNodeID drv) (set (qset_nodes q)). getNodePriority drv n q s = Inr (priority drv q s n)"
    using getNodePriority_defined[OF sane_small_ok[OF assms(1)] assms(2)] by blast
qed

theorem roundLeaders_highest_witness:
  "isQuorumSetSane demoQSet False \<and>
   (\<exists>ls. newRoundLeaders (demoDriver 2) demoQSet (snd (projr nominated)) = Inr ls \<and> sorted_wrt (<) ls)"
proof -
  have "isQuorumSetSane demoQSet False" "mPreviousValue (mNomination (snd (projr nominated))) \<noteq> []" by code_simp+
  from roundLeaders_highest[OF this, of "demoDriver 2"] this(1) show ?thesis by blast
qed









end
