(* ===== verification/Consensus.thy ===== *)
theory Consensus
  imports Demo
begin

text \<open>
  What the protocol promises to its users, as two small transition systems, and that the code refines
  them: a slot commits to one value and then decides it, and a network of nodes decides on one value.
\<close>

section \<open>Simulations\<close>

text \<open>
  A transition system simulates another one through an abstraction function when each of its steps is
  matched by some steps of the other. Then every run is matched by a run.
\<close>

locale simulation = run_system step inv rel
  for step :: "'s \<Rightarrow> 's \<Rightarrow> bool" and inv :: "'s \<Rightarrow> bool" and rel :: "'s \<Rightarrow> 's \<Rightarrow> bool" +
  fixes astep :: "'a \<Rightarrow> 'a \<Rightarrow> bool"
    and abs :: "'s \<Rightarrow> 'a"
  assumes step_sim: "inv s \<Longrightarrow> step s s' \<Longrightarrow> astep\<^sup>*\<^sup>* (abs s) (abs s')"
begin

lemma run_sim: "step\<^sup>*\<^sup>* s s' \<Longrightarrow> inv s \<Longrightarrow> astep\<^sup>*\<^sup>* (abs s) (abs s')"
proof (induction rule: rtranclp_induct)
  case (step y z)
  then show ?case using step_sim[of y z] run_inv by (meson rtranclp_trans)
qed simp

end

section \<open>A slot\<close>

datatype decision = Undecided | Committed val | Decided val

inductive decision_step :: "decision \<Rightarrow> decision \<Rightarrow> bool" where
  commit: "decision_step Undecided (Committed v)"
| decide: "decision_step (Committed v) (Decided v)"

inductive_cases decision_stepE: "decision_step d d'"

definition decision_of :: "Slot \<Rightarrow> decision" where
  "decision_of s =
     (case (mPhase s, mCommit s) of
        (SCP_PHASE_CONFIRM, Some c) \<Rightarrow> Committed (bvalue c)
      | (SCP_PHASE_EXTERNALIZE, Some c) \<Rightarrow> Decided (bvalue c)
      | _ \<Rightarrow> Undecided)"

lemma decision_steps: "decision_step\<^sup>*\<^sup>* Undecided (Committed v)" "decision_step\<^sup>*\<^sup>* (Committed v) (Decided v)"
  "decision_step\<^sup>*\<^sup>* Undecided (Decided v)"
proof -
  show 1: "decision_step\<^sup>*\<^sup>* Undecided (Committed v)" by (rule r_into_rtranclp) (rule commit)
  show 2: "decision_step\<^sup>*\<^sup>* (Committed v) (Decided v)" by (rule r_into_rtranclp) (rule decide)
  show "decision_step\<^sup>*\<^sup>* Undecided (Decided v)" by (rule rtranclp_trans[OF 1 2])
qed

lemma decision_sim:
  assumes "binv s" "binv s'" "core_step s s'"
  shows "decision_step\<^sup>*\<^sup>* (decision_of s) (decision_of s')"
proof -
  have c: "mPhase s \<noteq> SCP_PHASE_PREPARE \<Longrightarrow> mCommit s \<noteq> None" "mPhase s' \<noteq> SCP_PHASE_PREPARE \<Longrightarrow> mCommit s' \<noteq> None"
    using assms(1,2) unfolding binv_def pre_inv_def by blast+
  have v: "mPhase s \<noteq> SCP_PHASE_PREPARE \<Longrightarrow> map_option bvalue (mCommit s') = map_option bvalue (mCommit s)"
    and ph: "phaseNum (mPhase s) \<le> phaseNum (mPhase s')"
    using assms(3) by (simp_all add: core_step_def)
  show ?thesis
    using c v ph
    by (cases "mPhase s"; cases "mPhase s'"; cases "mCommit s"; cases "mCommit s'")
      (simp_all add: decision_of_def decision_steps)
qed

interpretation slot_sim: simulation "slot_step drv E" "slot_inv drv" slot_rel decision_step decision_of for drv E
proof
  show "decision_step\<^sup>*\<^sup>* (decision_of s) (decision_of s')" if "slot_inv drv s" "slot_step drv E s s'" for s s'
    using slot_step_facts(1,3)[OF that(2,1)] that(1) decision_sim by (simp add: slot_inv_def)
qed

text \<open>
  Property C3. A slot refines the specification of a single decision: seen through its phase and its
  committed value, every run of its operations commits to a value at most once, decides only the value it
  has committed to, and never takes either back.
\<close>

theorem slot_refines_decision:
  assumes "reachable drv i s" "(slot_step drv E)\<^sup>*\<^sup>* s s'"
  shows "decision_step\<^sup>*\<^sup>* (decision_of s) (decision_of s')"
  by (rule slot_sim.run_sim[OF assms(2) reachable_inv[OF assms(1)]])

theorem slot_refines_decision_witness:
  "decision_of (newSlot (demoDriver 1) 1) = Undecided \<and> decision_of demoSlot1 = Decided [7] \<and>
   decision_step\<^sup>*\<^sup>* (decision_of (newSlot (demoDriver 1) 1)) (decision_of demoSlot1)"
proof -
  have facts: "decision_of (newSlot (demoDriver 1) 1) = Undecided" "decision_of demoSlot1 = Decided [7]"
    by code_simp+
  have run: "(slot_step (demoDriver 1) (\<lambda>_. True))\<^sup>*\<^sup>* (newSlot (demoDriver 1) 1) demoSlot1"
    using demo_reachable(1) by (simp only: reachable_def)
  from slot_refines_decision[OF demo_reachable(2) run] facts show ?thesis by blast
qed

section \<open>A network\<close>

text \<open>Consensus: a node decides once, and only the value that every other decided node has decided.\<close>

inductive consensus_step :: "node_id set \<Rightarrow> (node_id \<Rightarrow> val option) \<Rightarrow> (node_id \<Rightarrow> val option) \<Rightarrow> bool" for H where
  decide: "n \<in> H \<Longrightarrow> d n = None \<Longrightarrow> (\<And>m. m \<in> H \<Longrightarrow> d m = None \<or> d m = Some v) \<Longrightarrow>
    consensus_step H d (d(n := Some v))"

definition decisions_of :: "node_id set \<Rightarrow> (node_id \<Rightarrow> Slot) \<Rightarrow> node_id \<Rightarrow> val option" where
  "decisions_of H net n =
     (if n \<in> H \<and> mPhase (net n) = SCP_PHASE_EXTERNALIZE then map_option bvalue (mCommit (net n)) else None)"

lemma decisions_externalized: "n \<in> H \<Longrightarrow> decisions_of H net n = Some v \<longleftrightarrow> externalized (net n) v"
  by (auto simp: decisions_of_def externalized_def)

lemma decisions_agree:
  assumes "net_inv H drvs net" "quorums_intersect H drvs" "A \<in> H" "B \<in> H"
    and "decisions_of H net A = Some v" "decisions_of H net B = Some w"
  shows "v = w"
  using supported_agree[OF assms(2-4)] net_inv_parts(4)[OF assms(1)] assms(3-6) decisions_externalized by blast

lemma consensus_sim:
  assumes inv: "net_inv H drvs net" and quo: "quorums_intersect H drvs" and step: "net_step H drvs net net'"
  shows "decisions_of H net' = decisions_of H net \<or> consensus_step H (decisions_of H net) (decisions_of H net')"
proof -
  obtain A s' where A: "A \<in> H" "slot_step (drvs A) (authentic H net) (net A) s'" "net' = net(A := s')"
    using step by cases blast
  note core = slot_step_facts(3)[OF A(2) net_inv_parts(1)[OF inv A(1)]]
  have inv': "net_inv H drvs net'" using net_step_inv[OF inv step] by blast
  have others: "decisions_of H net' n = decisions_of H net n" if "n \<noteq> A" for n
    using that A(3) by (simp add: decisions_of_def)
  show ?thesis
  proof (cases "decisions_of H net' A = decisions_of H net A")
    case True
    then have "decisions_of H net' = decisions_of H net" using others by (metis ext)
    then show ?thesis by simp
  next
    case False
    have "mPhase (net A) \<noteq> SCP_PHASE_EXTERNALIZE"
    proof
      assume ph: "mPhase (net A) = SCP_PHASE_EXTERNALIZE"
      from core_step_ext[OF core ph] core ph have "decisions_of H net' A = decisions_of H net A"
        using A(3) by (simp add: decisions_of_def core_step_def)
      with False show "False" by simp
    qed
    then have none: "decisions_of H net A = None" by (simp add: decisions_of_def)
    with False obtain v where v: "decisions_of H net' A = Some v" by (cases "decisions_of H net' A") auto
    have "decisions_of H net m = None \<or> decisions_of H net m = Some v" if "m \<in> H" for m
    proof (cases "m = A")
      case m: False
      show ?thesis
      proof (cases "decisions_of H net m")
        case (Some w)
        then have "decisions_of H net' m = Some w" using others[OF m] by simp
        from decisions_agree[OF inv' quo that A(1) this v] Some show ?thesis by simp
      qed simp
    qed (simp add: none)
    then have "consensus_step H (decisions_of H net) ((decisions_of H net)(A := Some v))"
      by (rule consensus_step.decide[where d = "decisions_of H net", OF A(1) none])
    moreover have "(decisions_of H net)(A := Some v) = decisions_of H net'" using others v by (auto simp: fun_eq_iff)
    ultimately show ?thesis by simp
  qed
qed

interpretation net_sim: simulation "net_step H drvs" "\<lambda>net. net_inv H drvs net \<and> quorums_intersect H drvs" "net_rel H"
  "consensus_step H" "decisions_of H" for H drvs
proof
  show "(consensus_step H)\<^sup>*\<^sup>* (decisions_of H s) (decisions_of H s')"
    if "net_inv H drvs s \<and> quorums_intersect H drvs" "net_step H drvs s s'" for s s'
    using consensus_sim[of H drvs s s'] that by (metis r_into_rtranclp rtranclp.rtrancl_refl)
qed (use net_runs.step_inv net_runs.step_rel net_runs.rel_refl net_runs.rel_trans in blast)+

lemma decisions_told:
  assumes "slot_inv drv (net n)" "n \<in> H"
  shows "decisions_of H net n = Some v \<longleftrightarrow> ValueExternalized v \<in> set (mDriverCalls (net n))"
proof
  assume "decisions_of H net n = Some v"
  then have "mPhase (net n) = SCP_PHASE_EXTERNALIZE" "map_option bvalue (mCommit (net n)) = Some v"
    using assms(2) by (auto simp: decisions_of_def split: if_splits)
  moreover have "logged (net n)" using assms(1) by (simp add: slot_inv_def)
  ultimately have "ValueExternalized v \<in> set (filter isExternalized (mDriverCalls (net n)))" by (auto simp: logged_def)
  then show "ValueExternalized v \<in> set (mDriverCalls (net n))" by simp
next
  assume "ValueExternalized v \<in> set (mDriverCalls (net n))"
  then show "decisions_of H net n = Some v"
    using told_externalized[OF assms(1)] decisions_externalized[OF assms(2)] by blast
qed

text \<open>
  Property C2. A network of correct nodes whose quorums intersect refines the specification of consensus.
  In the specification nodes decide one after the other, each one once, and each one the value that the
  others have decided. A correct node has decided a value when it has told its driver to externalize it. At
  the start nobody has decided. Every step of the network leaves the decisions as they are or is one step of
  the specification, so every run that continues a reachable state of the network is a run of the
  specification.
\<close>

theorem network_refines_consensus:
  assumes "drivers_ok H drvs" "quorums_intersect H drvs"
    and "(net_step H drvs)\<^sup>*\<^sup>* (net_start drvs i) net" "(net_step H drvs)\<^sup>*\<^sup>* net net'" "net_step H drvs net' net''"
  shows "decisions_of H (net_start drvs i) = (\<lambda>_. None) \<and>
    (\<forall>n v. n \<in> H \<longrightarrow> (decisions_of H net n = Some v \<longleftrightarrow> ValueExternalized v \<in> set (mDriverCalls (net n)))) \<and>
    (consensus_step H)\<^sup>*\<^sup>* (decisions_of H net) (decisions_of H net') \<and>
    (decisions_of H net'' = decisions_of H net' \<or> consensus_step H (decisions_of H net') (decisions_of H net''))"
proof -
  have inv: "net_inv H drvs net" using net_runs.run_inv[OF assms(3)] net_inv_start[OF assms(1)] by blast
  have inv': "net_inv H drvs net'" using net_runs.run_inv[OF assms(4)] inv by blast
  have "decisions_of H (net_start drvs i) = (\<lambda>_. None)"
    by (rule ext) (simp add: decisions_of_def net_start_def newSlot_def)
  moreover have "(consensus_step H)\<^sup>*\<^sup>* (decisions_of H net) (decisions_of H net')"
    using net_sim.run_sim[OF assms(4)] inv assms(2) by blast
  ultimately show ?thesis
    using decisions_told net_inv_parts(1)[OF inv] consensus_sim[OF inv' assms(2,5)] by blast
qed

text \<open>Node 1 decides, then node 2: the second step of the run is a step of the specification.\<close>

abbreviation demoNet1 :: "node_id \<Rightarrow> Slot" where
  "demoNet1 \<equiv> (net_start demoDriver 1)(1 := demoSlot1)"

lemma demo_decisions:
  "decisions_of {1, 2} demoNet1 1 = Some [7]" "decisions_of {1, 2} demoNet1 2 = None"
  "decisions_of {1, 2} demoNet 1 = Some [7]" "decisions_of {1, 2} demoNet 2 = Some [7]"
proof -
  have "mPhase demoSlot1 = SCP_PHASE_EXTERNALIZE" "mPhase demoSlot2 = SCP_PHASE_EXTERNALIZE"
    "map_option bvalue (mCommit demoSlot1) = Some [7]" "map_option bvalue (mCommit demoSlot2) = Some [7]"
    by code_simp+
  then show "decisions_of {1, 2} demoNet1 1 = Some [7]" "decisions_of {1, 2} demoNet1 2 = None"
    "decisions_of {1, 2} demoNet 1 = Some [7]" "decisions_of {1, 2} demoNet 2 = Some [7]"
    by (simp_all add: decisions_of_def net_start_def newSlot_def)
qed

theorem network_refines_consensus_witness:
  "decisions_of {1, 2} demoNet1 2 = None \<and> decisions_of {1, 2} demoNet 2 = Some [7] \<and>
   consensus_step {1, 2} (decisions_of {1, 2} demoNet1) (decisions_of {1, 2} demoNet)"
proof -
  have start: "(net_step {1, 2} demoDriver)\<^sup>*\<^sup>* (net_start demoDriver 1) demoNet1"
    by (rule r_into_rtranclp[where r = "net_step {1, 2} demoDriver", OF demo_net_steps(1)])
  have "decisions_of {1, 2} demoNet \<noteq> decisions_of {1, 2} demoNet1" using demo_decisions(2,4) by (metis option.distinct(1))
  then show ?thesis
    using network_refines_consensus[OF demo_drivers demo_intersect start rtranclp.rtrancl_refl demo_net_steps(2)]
      demo_decisions(2,4) by blast
qed

end
