(* ===== verification/ScpTheorems.thy ===== *)
theory ScpTheorems
  imports Demo
begin

text \<open>
  The properties of the consensus protocol over the runs of a slot and of a network of nodes. Each one
  rests on the lemmas of the component theories; the witnesses run the definitions on a network of two
  nodes.
\<close>

section \<open>Agreement\<close>

text \<open>
  Property C1. Agreement: in a network whose correct nodes run this code for a slot, next to arbitrary
  other nodes, if the quorums of the correct nodes intersect in correct nodes and envelopes of correct
  nodes are not forged, then no two correct nodes ever tell their drivers to externalize different values.
  The envelopes may be delayed, reordered, repeated or lost.
\<close>

theorem scp_agreement:
  assumes "drivers_ok H drvs" "quorums_intersect H drvs"
    and "(net_step H drvs)\<^sup>*\<^sup>* (net_start drvs i) net"
    and "A \<in> H" "B \<in> H"
    and "ValueExternalized v \<in> set (mDriverCalls (net A))"
    and "ValueExternalized w \<in> set (mDriverCalls (net B))"
  shows "v = w"
proof -
  have inv: "net_inv H drvs net" using net_runs.run_inv[OF assms(3)] net_inv_start[OF assms(1)] by blast
  have "externalized (net A) v" "externalized (net B) w"
    using told_externalized net_inv_parts(1)[OF inv] assms(4-7) by blast+
  then have "supported H drvs net A v" "supported H drvs net B w"
    using net_inv_parts(4)[OF inv] assms(4,5) by blast+
  then show ?thesis by (rule supported_agree[OF assms(2,4,5)])
qed

theorem scp_agreement_witness:
  "ValueExternalized (bvalue (the (mCommit demoSlot1))) \<in> set (mDriverCalls demoSlot1) \<and>
   ValueExternalized (bvalue (the (mCommit demoSlot2))) \<in> set (mDriverCalls demoSlot2) \<and>
   bvalue (the (mCommit demoSlot1)) = bvalue (the (mCommit demoSlot2))"
proof -
  have told: "ValueExternalized (bvalue (the (mCommit demoSlot1))) \<in> set (mDriverCalls (demoNet 1))"
    "ValueExternalized (bvalue (the (mCommit demoSlot2))) \<in> set (mDriverCalls (demoNet 2))"
    using demo1_facts(3) demo2_facts(2) by simp_all
  show ?thesis
    using scp_agreement[OF demo_drivers demo_intersect demo_run _ _ told] told by simp
qed

section \<open>Runs of a slot\<close>

text \<open>
  Property C4. The driver is told of an externalized value at most once for a slot: in every reachable
  state it has been told of exactly the committed value if the slot is in the EXTERNALIZE phase, and of
  nothing before that.
\<close>

theorem externalized_once:
  assumes "reachable drv i s"
  shows "filter isExternalized (mDriverCalls s) =
    (if mPhase s = SCP_PHASE_EXTERNALIZE then [ValueExternalized (bvalue (the (mCommit s)))] else [])"
proof -
  have "logged s" "binv s" using reachable_inv[OF assms] by (simp_all add: slot_inv_def)
  then show ?thesis by (cases "mCommit s") (simp_all add: logged_def binv_def pre_inv_def)
qed

theorem externalized_once_witness:
  "reachable (demoDriver 1) 1 demoSlot1 \<and> filter isExternalized (mDriverCalls demoSlot1) =
     [ValueExternalized (bvalue (the (mCommit demoSlot1)))]"
  using externalized_once[OF demo_reachable(1)] demo_reachable(1) demo1_facts(4) by simp

text \<open>
  Property C6. The assertions of \<^verbatim>\<open>checkInvariants\<close> hold in every reachable state. Moreover, once a
  commit is accepted there is a prepared ballot and no second one, and the map of latest envelopes is
  sorted and holds, for each node, a ballot statement of that node.
\<close>

theorem checkInvariants_hold:
  assumes "reachable drv i s"
  shows "checkInvariants s = Inr ((), s) \<and>
    (mPhase s = SCP_PHASE_PREPARE \<or> (mPrepared s \<noteq> None \<and> mPreparedPrime s = None)) \<and>
    omap_sorted (mLatestEnvelopes s) \<and>
    (\<forall>(n, e) \<in> set (mLatestEnvelopes s). nodeID (stmt e) = n \<and> pledgesType (pledges (stmt e)) < 3)"
proof -
  have b: "binv s" using reachable_inv[OF assms] by (simp add: slot_inv_def)
  then have "checkInvariants s = Inr ((), s)"
    using checkInvariants_cases[OF binv_pre[OF b]] by (cases "mCurrentBallot s") (simp_all add: binv_def)
  moreover have "mPhase s = SCP_PHASE_PREPARE \<or> (mPrepared s \<noteq> None \<and> mPreparedPrime s = None)" "latest_ok (mLatestEnvelopes s)"
    using b unfolding binv_def pre_inv_def by blast+
  ultimately show ?thesis unfolding latest_ok_def by blast
qed

theorem checkInvariants_hold_witness:
  "reachable (demoDriver 1) 1 demoSlot1 \<and> checkInvariants demoSlot1 = Inr ((), demoSlot1) \<and>
   omap_sorted (mLatestEnvelopes demoSlot1)"
  using checkInvariants_hold[OF demo_reachable(1)] demo_reachable(1) by blast

text \<open>
  Property C20. Along a run the phase never goes back, the current ballot never decreases within a phase,
  the committed value never changes once a commit is accepted, an externalized slot keeps its phase and
  all its ballots whatever arrives, and the latest statement of each node is only ever replaced by a newer
  one.
\<close>

theorem runs_monotone:
  assumes "reachable drv i s" "(slot_step drv E)\<^sup>*\<^sup>* s s'"
  shows "phaseNum (mPhase s) \<le> phaseNum (mPhase s') \<and>
    (mPhase s' = mPhase s \<longrightarrow> ballot_le (mCurrentBallot s) (mCurrentBallot s')) \<and>
    (mPhase s \<noteq> SCP_PHASE_PREPARE \<longrightarrow> map_option bvalue (mCommit s') = map_option bvalue (mCommit s)) \<and>
    (mPhase s = SCP_PHASE_EXTERNALIZE \<longrightarrow> mPhase s' = mPhase s \<and> mCommit s' = mCommit s \<and>
       mHighBallot s' = mHighBallot s \<and> mCurrentBallot s' = mCurrentBallot s \<and> mPrepared s' = mPrepared s) \<and>
    (\<forall>n e. omap_find (mLatestEnvelopes s) n = Some e \<longrightarrow>
       (\<exists>e'. omap_find (mLatestEnvelopes s') n = Some e' \<and> (e' = e \<or> isNewerStatement2 (stmt e) (stmt e'))))"
proof -
  have rel: "slot_rel s s'" by (rule slot_runs.run_rel[OF assms(2) reachable_inv[OF assms(1)]])
  then have core: "core_step s s'" by (simp add: slot_rel_def)
  have "mPhase s' = mPhase s" if "mPhase s = SCP_PHASE_EXTERNALIZE" using core_step_ext[OF core that] that by simp
  with core rel show ?thesis unfolding slot_rel_def core_step_def latest_step_def by blast
qed

theorem runs_monotone_witness:
  "reachable (demoDriver 1) 1 (newSlot (demoDriver 1) 1) \<and>
   phaseNum (mPhase (newSlot (demoDriver 1) 1)) \<le> phaseNum (mPhase demoSlot1)"
proof -
  have run: "(slot_step (demoDriver 1) (\<lambda>_. True))\<^sup>*\<^sup>* (newSlot (demoDriver 1) 1) demoSlot1"
    using demo_reachable(1) by (simp only: reachable_def)
  show ?thesis using runs_monotone[OF demo_reachable(2) run] demo_reachable(2) by blast
qed

text \<open>
  Property C5. A slot externalizes a value only when a quorum confirms it: there is a set of nodes that
  satisfies the local quorum set, and every node of it has a slice of its own quorum set in the set and has
  sent a CONFIRM or EXTERNALIZE statement that covers the committed interval. The statements are the ones
  the slot holds afterwards, except for the node's own.
\<close>

theorem externalize_needs_quorum:
  assumes "reachable drv i s" "slot_step drv E s s'"
    and "mPhase s \<noteq> SCP_PHASE_EXTERNALIZE" "mPhase s' = SCP_PHASE_EXTERNALIZE"
  shows "\<exists>U m c h. mCommit s' = Some c \<and> mHighBallot s' = Some h \<and> sat U (localQSet drv) \<and>
    (\<forall>n \<in> U. \<exists>e q. omap_find m n = Some e \<and> commitPredicate h (counter c, counter h) (stmt e) \<and>
       getQuorumSetFromStatement drv (stmt e) = Some q \<and> sat U q \<and>
       (n = localNodeID drv \<or> omap_find (mLatestEnvelopes s') n = Some e))"
proof -
  have "externalize_justified drv s s'"
    using slot_step_ok[OF assms(2)] reachable_inv[OF assms(1)] slot_inv_base by (auto simp: step_ok_def bevolves_def)
  then obtain m c h where m: "mCommit s' = Some c" "mHighBallot s' = Some h" "latest_ok m"
    "federatedRatify drv (commitPredicate h (counter c, counter h)) m"
    "\<And>n. n \<noteq> localNodeID drv \<Longrightarrow> omap_find m n = omap_find (mLatestEnvelopes s') n"
    using assms(3,4) by (auto simp: externalize_justified_def)
  obtain U where "sat U (localQSet drv)"
    "\<And>n. n \<in> U \<Longrightarrow> \<exists>e q. omap_find m n = Some e \<and> commitPredicate h (counter c, counter h) (stmt e) \<and>
       getQuorumSetFromStatement drv (stmt e) = Some q \<and> sat U q"
    using ratify_quorum[OF m(4,3)] by blast
  then show ?thesis using m(1,2,5) by metis
qed

theorem externalize_needs_quorum_witness:
  "mPhase demoSlot1 = SCP_PHASE_EXTERNALIZE \<and> (\<exists>U. sat U (localQSet (demoDriver 1)))"
proof -
  have "mPhase (newSlot (demoDriver 1) 1) \<noteq> SCP_PHASE_EXTERNALIZE" by (simp add: newSlot_def)
  from externalize_needs_quorum[OF demo_reachable(2) demo1_step this demo1_facts(4)] demo1_facts(4)
  show ?thesis by blast
qed

text \<open>
  Property C21. A node never contradicts itself on commits: every CONFIRM statement it has handed to its
  driver carries the value its slot is committed to, and every EXTERNALIZE statement the value it has
  externalized.
\<close>

theorem own_commits_agree:
  assumes "reachable drv i s" "EmitEnvelope e \<in> set (mDriverCalls s)"
  shows "case pledges (stmt e) of
      CONFIRM b _ _ _ _ \<Rightarrow> mPhase s \<noteq> SCP_PHASE_PREPARE \<and> map_option bvalue (mCommit s) = Some (bvalue b)
    | EXTERNALIZE c _ _ \<Rightarrow> mPhase s = SCP_PHASE_EXTERNALIZE \<and> map_option bvalue (mCommit s) = Some (bvalue c)
    | _ \<Rightarrow> True"
  using emitted_claim[OF reachable_inv[OF assms(1)] assms(2)]
  by (cases "pledges (stmt e)") (simp_all add: claim_def)

theorem own_commits_agree_witness:
  "EmitEnvelope demoEnvelope \<in> set (mDriverCalls demoSlot1) \<and> map_option bvalue (mCommit demoSlot1) = Some [7]"
  using own_commits_agree[OF demo_reachable(1) demo1_facts(2)] demo1_facts(2) by (simp add: demoEnvelope_def)

section \<open>Processing envelopes\<close>

text \<open>
  Property C19. In a reachable state, processing a ballot statement of the slot ends: it returns a result,
  or fails in one of six ways. These are the exception that the source throws when its own statements nest
  \<^verbatim>\<open>MAX_ADVANCE_SLOT_RECURSION\<close> levels deep, a rejected own statement, an empty prepared ballot that is
  dereferenced, and three assertions. All the other assertions of the ballot protocol never fail, the bump
  loop never runs forever, and the levels of nesting in the model are as many as the source can reach.
\<close>

theorem processBallotEnvelope_errors:
  assumes "reachable drv i s" "slotIndex (stmt e) = mSlotIndex s" "pledgesType (pledges (stmt e)) < 3"
  shows "(\<exists>r s'. processBallotEnvelope drv e self s = Inr (r, s')) \<or>
    processBallotEnvelope drv e self s \<in> Inl ` {MaxTransitions, MovedToBadState, NullDeref, AssertBallotCounter,
      AssertAcceptCompatible, AssertClearCommitPhase}"
proof -
  have "binv s" "mCurrentMessageLevel s = 0" using reachable_inv[OF assms(1)] by (simp_all add: slot_inv_def)
  note ok = processBallotEnvelope_processed[OF this assms(2,3), of drv self]
  show ?thesis
  proof (cases "processBallotEnvelope drv e self s")
    case (Inl err)
    then have "expected_error err" using ok by (simp add: processed_def)
    then show ?thesis unfolding Inl expected_error_def by blast
  qed auto
qed

theorem processBallotEnvelope_errors_witness:
  "reachable (demoDriver 2) 1 (newSlot (demoDriver 2) 1) \<and>
   ((\<exists>r s'. processBallotEnvelope (demoDriver 2) demoEnvelope False (newSlot (demoDriver 2) 1) = Inr (r, s')) \<or>
    processBallotEnvelope (demoDriver 2) demoEnvelope False (newSlot (demoDriver 2) 1) \<in>
      Inl ` {MaxTransitions, MovedToBadState, NullDeref, AssertBallotCounter, AssertAcceptCompatible, AssertClearCommitPhase})"
  using processBallotEnvelope_errors[OF demo_reachable(2) demoEnvelope_facts(1,2)] demo_reachable(2) by blast

text \<open>
  Property C27. An envelope that a slot reports as INVALID, of the ballot or of the nomination protocol,
  leaves the slot as it was.
\<close>

theorem invalid_unchanged:
  assumes "reachable drv i s" "slotProcessEnvelope drv e self s = Some (Inr (INVALID, s'))"
  shows "s' = s"
proof -
  have inv: "slot_inv drv s" by (rule reachable_inv[OF assms(1)])
  have sl: "slotIndex (stmt e) = mSlotIndex s"
    using assms(2) by (cases "slotIndex (stmt e) = mSlotIndex s") (simp_all add: slotProcessEnvelope_def)
  show ?thesis
  proof (cases "pledgesType (pledges (stmt e)) < 3")
    case True
    then have "processBallotEnvelope drv e self s = Inr (INVALID, s')"
      using assms(2) sl by (cases "pledges (stmt e)") (simp_all add: slotProcessEnvelope_def pledgesType_def)
    then show ?thesis
      using processBallotEnvelope_processed[OF _ _ sl True, of drv self] inv by (simp add: processed_def slot_inv_def)
  next
    case False
    then have "processNomination drv e s = Some (Inr (INVALID, s'))"
      using assms(2) sl by (cases "pledges (stmt e)") (simp_all add: slotProcessEnvelope_def pledgesType_def)
    from processNomination_ok[OF this slot_inv_nstate[OF inv]] show ?thesis by (simp add: nom_processed_def)
  qed
qed

lemma demo_replay:
  "slotProcessEnvelope (demoDriver 1) demoEnvelope False demoSlot1 = Some (Inr (INVALID, demoSlot1))"
  by code_simp

theorem invalid_unchanged_witness:
  "slotProcessEnvelope (demoDriver 1) demoEnvelope False demoSlot1 = Some (Inr (INVALID, demoSlot1)) \<and>
   demoSlot1 = snd (projr demo1)"
  using invalid_unchanged[OF demo_reachable(1) demo_replay] demo_replay by simp

text \<open>
  Property C28. A ballot envelope of another node that a slot reports as VALID becomes the latest
  envelope of that node, and the same envelope is INVALID when it arrives again.
\<close>

theorem replay_invalid:
  assumes "reachable drv i s" "processBallotEnvelope drv e False s = Inr (VALID, s')"
    and "slotIndex (stmt e) = mSlotIndex s" "pledgesType (pledges (stmt e)) < 3" "nodeID (stmt e) \<noteq> localNodeID drv"
  shows "omap_find (mLatestEnvelopes s') (nodeID (stmt e)) = Some e \<and>
    processBallotEnvelope drv e False s' = Inr (INVALID, s')"
proof -
  have "binv s" "mCurrentMessageLevel s = 0" using reachable_inv[OF assms(1)] by (simp_all add: slot_inv_def)
  from processBallotEnvelope_processed[OF this assms(3,4), of drv False]
  have ok: "omap_find (mLatestEnvelopes s') (nodeID (stmt e)) = Some e" "mSlotIndex s' = mSlotIndex s"
    using assms(2,5) by (simp_all add: processed_def evolves_unfold)
  then have "\<not> isNewerStatement (nodeID (stmt e)) (stmt e) s'"
    using isNewerPledges_irrefl by (simp add: isNewerStatement_def isNewerStatement2_def)
  moreover have "\<exists>b. isStatementSane drv (stmt e) False = Inr b"
    using assms(4) by (cases "pledges (stmt e)") (auto simp: isStatementSane_def pledgesType_def)
  ultimately have "processEnvelopeWith drv proc e False s' = Inr (INVALID, s')" for proc
    using assms(3) ok(2) by (auto simp: processEnvelopeWith_def Let_def)
  then show ?thesis
    using ok(1) by (simp add: processBallotEnvelope_def MAX_ADVANCE_SLOT_RECURSION_def numeral_eq_Suc)
qed

lemma demo2_valid: "fst (projr demo2) = VALID"
  by code_simp

theorem replay_invalid_witness:
  "processBallotEnvelope (demoDriver 2) demoEnvelope False (newSlot (demoDriver 2) 1) = Inr (VALID, demoSlot2) \<and>
   processBallotEnvelope (demoDriver 2) demoEnvelope False demoSlot2 = Inr (INVALID, demoSlot2)"
proof -
  have res: "processBallotEnvelope (demoDriver 2) demoEnvelope False (newSlot (demoDriver 2) 1) = Inr (VALID, demoSlot2)"
    using projr_pair[OF demo2_facts(1)] unfolding demo2_valid by (simp only: demo2_def)
  have "nodeID (stmt demoEnvelope) \<noteq> localNodeID (demoDriver 2)"
    by (simp add: demoEnvelope_def demoDriver_def)
  from replay_invalid[OF demo_reachable(2) res demoEnvelope_facts(1,2) this] res show ?thesis by blast
qed

section \<open>Aborts\<close>

text \<open>
  Three nodes that all need each other. Node 2 learns that node 1 has externalized, which makes it accept
  the commit with the highest counter there is, and then hears from node 3 at that counter: a quorum, so the
  ballot timer is set up.
\<close>

definition trioDriver :: SCPDriver where
  "trioDriver = (demoDriver 2)\<lparr>localQSet := SCPQuorumSet 3 [1, 2, 3] [], getQSet := (\<lambda>_. Some (SCPQuorumSet 3 [1, 2, 3] []))\<rparr>"

definition trioEnvelope :: SCPEnvelope where
  "trioEnvelope =
     \<lparr> stmt = \<lparr> nodeID = 3, slotIndex = 1, pledges = PREPARE 1 (SCPBallot UINT32_MAX [8]) None None 0 0 \<rparr>, signature = [] \<rparr>"

definition trio1 :: "scp_error + EnvelopeState \<times> Slot" where
  "trio1 = processBallotEnvelope trioDriver demoEnvelope False (newSlot trioDriver 1)"

definition trio2 :: "scp_error + EnvelopeState \<times> Slot" where
  "trio2 = processBallotEnvelope trioDriver trioEnvelope False (snd (projr trio1))"

abbreviation trioSlot :: Slot where
  "trioSlot \<equiv> snd (projr trio2)"

text \<open>
  Property C29. A slot whose current ballot has the highest counter and that has not externalized aborts
  when the ballot timer fires: the new counter wraps to 0 and the assertion of \<^verbatim>\<open>updateCurrentValue\<close> that
  ballots never decrease fails.
\<close>

theorem timer_wraps:
  assumes "mCurrentBallot s = Some b" "counter b = UINT32_MAX" "bvalue b \<noteq> []" "mPhase s \<noteq> SCP_PHASE_EXTERNALIZE"
  shows "slotTimerExpired drv s = Inl AssertCurrentMonotone"
proof -
  have "at_max s" using assms by (simp add: at_max_def ballotCounter_def)
  from bumpState_wraps[OF this] have wrap: "bumpState drv (selfProc drv) v True s = Inl AssertCurrentMonotone" for v .
  have "abandonBallot drv (selfProc drv) 0 s = Inl AssertCurrentMonotone"
    using assms(1,3) by (cases "mLatestCompositeCandidate (mNomination s)") (auto simp: abandonBallot_def Let_def wrap)
  then show ?thesis by (simp add: slotTimerExpired_def ballotProtocolTimerExpired_def)
qed

lemma trio_facts:
  "\<not> isl trio1" "\<not> isl trio2" "mCurrentBallot trioSlot = Some (SCPBallot UINT32_MAX [7])"
  "mPhase trioSlot = SCP_PHASE_CONFIRM" "SetupTimer BALLOT_PROTOCOL_TIMER 1800 \<in> set (mDriverCalls trioSlot)"
  by code_simp+

theorem timer_wraps_witness:
  "SetupTimer BALLOT_PROTOCOL_TIMER 1800 \<in> set (mDriverCalls trioSlot) \<and>
   slotTimerExpired trioDriver trioSlot = Inl AssertCurrentMonotone"
  using timer_wraps[OF trio_facts(3), of trioDriver] trio_facts(4,5) by simp















end
